theory Spec2Isabelle
  imports Complex_Main "HOL-Library.Word"
begin

section \<open>Data model of \<^verbatim>\<open>gtsam::VectorValues\<close> (src/linear/VectorValues.h)\<close>

text \<open>
  \<^verbatim>\<open>size_t\<close> is the unsigned 64-bit integer of an LP64 platform: addition and
  subtraction wrap around. \<^verbatim>\<open>ptrdiff_t\<close> is the signed type of the same width; adding
  it to an unsigned index converts it to unsigned first, which is addition of the two
  bit patterns. \<^verbatim>\<open>Vector\<close> is a ublas vector of doubles; the doubles are idealised as
  reals (no rounding, no NaN), the vector is the list of its entries. Every theorem below
  that mentions entries is about which entries an operation touches, not about rounding.
\<close>

type_synonym size_t = "64 word"
type_synonym ptrdiff_t = "64 word"
type_synonym Vector = "real list"

text \<open>
  Modelled from the spec: \<^verbatim>\<open>Index\<close> is declared in gtsam/base/types.h, which is not
  among the sources. The spec has block indices as non-negative integers, and the source
  assigns \<^verbatim>\<open>varStarts_.size()-1\<close> to an \<^verbatim>\<open>Index\<close> and compares the two types freely, so
  it is the same unsigned type as \<^verbatim>\<open>size_t\<close>.
\<close>

type_synonym Index = "64 word"

text \<open>
  The model is of a checked build: \<^verbatim>\<open>assert\<close> and the ublas checks
  (\<^verbatim>\<open>BOOST_UBLAS_CHECK\<close>, which raise \<^verbatim>\<open>bad_index\<close> or \<^verbatim>\<open>bad_size\<close>) are active, and
  each is a branch that returns an error. An access of a \<^verbatim>\<open>std::vector\<close> outside its
  bounds, which C++ leaves undefined, is the error \<open>undefined_behaviour\<close>.
\<close>

datatype error =
    assertion_failure
  | bad_index
  | bad_size
  | runtime_error string
  | undefined_behaviour

text \<open>
  The two members of the class, \<^verbatim>\<open>values_\<close> and \<^verbatim>\<open>varStarts_\<close>. A name cannot end
  with an underscore here, so the fields are \<open>values'\<close> and \<open>varStarts\<close>; likewise
  \<open>config\<close> and \<open>curVariable\<close> in the iterator.
\<close>

record VectorValues =
  values' :: Vector
  varStarts :: "size_t list"

subsection \<open>The containers underneath\<close>

text \<open>\<^verbatim>\<open>size()\<close> of a \<^verbatim>\<open>std::vector\<close> or a ublas vector, as a \<^verbatim>\<open>size_t\<close>.\<close>

definition vec_size :: "'a list \<Rightarrow> size_t" where
  "vec_size xs = of_nat (length xs)"

text \<open>\<^verbatim>\<open>xs[i] = x\<close> on a \<^verbatim>\<open>std::vector\<close>.\<close>

definition store :: "'a list \<Rightarrow> size_t \<Rightarrow> 'a \<Rightarrow> error + 'a list" where
  "store xs i x = (if unat i < length xs then Inr (xs[unat i := x]) else Inl undefined_behaviour)"

text \<open>
  \<^verbatim>\<open>v.resize(n, preserve)\<close> of a ublas vector. With \<open>preserve\<close> the old entries below
  \<open>n\<close> are kept. The source never initialises the cells a resize creates, so their
  contents are a parameter: \<open>fresh k\<close> is what cell \<open>k\<close> holds when it is new. The ublas
  library fills the new cells of a preserving resize with 0, which is the case
  \<open>fresh = (\<lambda>k. 0)\<close>; the theorems about \<open>reserve\<close> hold for every \<open>fresh\<close>.
\<close>

definition resize :: "Vector \<Rightarrow> size_t \<Rightarrow> bool \<Rightarrow> (nat \<Rightarrow> real) \<Rightarrow> Vector" where
  "resize v n preserve fresh =
     (if preserve then take (unat n) v @ map fresh [length v ..< unat n]
      else map fresh [0 ..< unat n])"

text \<open>
  \<^verbatim>\<open>boost::numeric::ublas::range(start, stop)\<close>: the constructor checks
  \<open>start \<le> stop\<close> and keeps the start and the size.
\<close>

record range =
  range_start :: size_t
  range_size :: size_t

definition mk_range :: "size_t \<Rightarrow> size_t \<Rightarrow> error + range" where
  "mk_range start stop =
     (if start \<le> stop then Inr \<lparr>range_start = start, range_size = stop - start\<rparr> else Inl bad_index)"

text \<open>
  A \<^verbatim>\<open>vector_range\<close> (the result of \<^verbatim>\<open>project\<close>) is a view: reading it reads the entries
  of the underlying vector in the range, assigning a vector to it overwrites them. Every
  entry access is checked against the size of the underlying vector.
\<close>

definition read_range :: "Vector \<Rightarrow> range \<Rightarrow> error + Vector" where
  "read_range data r =
     (if range_size r \<noteq> 0 \<and> length data < unat (range_start r) + unat (range_size r) then Inl bad_index
      else Inr (take (unat (range_size r)) (drop (unat (range_start r)) data)))"

text \<open>
  An assignment to a view first checks that both sides have the same size (nothing is
  written when they differ), then copies entry by entry, from the first on, each write
  checked against the size of the underlying vector. When the range passes the end of the
  vector, the entries that fit are written before the first that does not raises
  \<^verbatim>\<open>bad_index\<close>. A failed assignment returns the error with the vector as it is left.
\<close>

definition assign_range :: "Vector \<Rightarrow> range \<Rightarrow> Vector \<Rightarrow> (error \<times> Vector) + Vector" where
  "assign_range data r e =
     (if range_size r \<noteq> vec_size e then Inl (bad_size, data)
      else if range_size r \<noteq> 0 \<and> length data < unat (range_start r) + unat (range_size r)
      then Inl (bad_index,
                take (unat (range_start r)) data @ take (length data - unat (range_start r)) e)
      else Inr (take (unat (range_start r)) data @ take (unat (range_size r)) e
                @ drop (unat (range_start r) + unat (range_size r)) data))"

subsection \<open>Flat-vector kernels of gtsam/base/Vector.h\<close>

text \<open>
  Modelled from the spec: \<^verbatim>\<open>gtsam::dot\<close> on flat vectors is declared in
  gtsam/base/Vector.h, which is not among the sources. It is the inner product of two
  vectors of one length; as a kernel on two vectors it asserts that the sizes agree.
\<close>

definition vector_dot :: "Vector \<Rightarrow> Vector \<Rightarrow> error + real" where
  "vector_dot a b =
     (if length a \<noteq> length b then Inl assertion_failure
      else Inr (sum_list (map2 (*) a b)))"

text \<open>
  Modelled from the spec: \<^verbatim>\<open>gtsam::scal\<close> on a flat vector (gtsam/base/Vector.h, not among
  the sources) multiplies every entry by the scalar, in place.
\<close>

definition vector_scal :: "real \<Rightarrow> Vector \<Rightarrow> Vector" where
  "vector_scal alpha x = map ((*) alpha) x"

text \<open>
  Modelled from the spec: \<^verbatim>\<open>gtsam::axpy\<close> on flat vectors (gtsam/base/Vector.h, not among
  the sources) is the in-place \<open>y += alpha * x\<close> on two vectors of one length; it asserts
  that the sizes agree.
\<close>

definition vector_axpy :: "real \<Rightarrow> Vector \<Rightarrow> Vector \<Rightarrow> error + Vector" where
  "vector_axpy alpha x y =
     (if length x \<noteq> length y then Inl assertion_failure
      else Inr (map2 (\<lambda>xi yi. yi + alpha * xi) x y))"

text \<open>
  Modelled from the spec: \<^verbatim>\<open>gtsam::equal_with_abs_tol\<close> on flat vectors
  (gtsam/base/Vector.h, not among the sources) compares two vectors entry by entry with an
  absolute tolerance: it is false when the sizes differ or when some pair of entries
  differs by more than the tolerance.
\<close>

fun equal_with_abs_tol :: "Vector \<Rightarrow> Vector \<Rightarrow> real \<Rightarrow> bool" where
  "equal_with_abs_tol [] [] tol = True"
| "equal_with_abs_tol (a # as) (b # bs) tol =
     (if \<bar>a - b\<bar> > tol then False else equal_with_abs_tol as bs tol)"
| "equal_with_abs_tol _ _ tol = False"

subsection \<open>Observers\<close>

text \<open>\<^verbatim>\<open>Index size() const { return varStarts_.size()-1; }\<close>\<close>

definition size_VV :: "VectorValues \<Rightarrow> Index" where
  "size_VV v = vec_size (varStarts v) - 1"

text \<open>
  \<^verbatim>\<open>size_t dim() const { return varStarts_.back(); }\<close> Every constructor allocates at
  least the entry 0 of \<open>varStarts\<close> (the field \<^verbatim>\<open>varStarts_\<close>), so \<open>back()\<close> is the last entry; the theorems about
  \<open>dim\<close> have \<open>varStarts v \<noteq> []\<close> among their hypotheses.
\<close>

definition dim :: "VectorValues \<Rightarrow> size_t" where
  "dim v = last (varStarts v)"

text \<open>\<^verbatim>\<open>size_t dimCapacity() const { return values_.size(); }\<close>\<close>

definition dimCapacity :: "VectorValues \<Rightarrow> size_t" where
  "dimCapacity v = vec_size (values' v)"

subsection \<open>Constructors\<close>

text \<open>\<^verbatim>\<open>VectorValues() : varStarts_(1,0) {}\<close> and the copy constructor.\<close>

definition VectorValues_default :: VectorValues where
  "VectorValues_default = \<lparr>values' = [], varStarts = [0]\<rparr>"

definition VectorValues_copy :: "VectorValues \<Rightarrow> VectorValues" where
  "VectorValues_copy V = \<lparr>values' = values' V, varStarts = varStarts V\<rparr>"

text \<open>
  The loop of the constructors from a container of dimensions:
  \<^verbatim>\<open>BOOST_FOREACH(size_t dim, dimensions) { varStarts_[++var] = (varStart += dim); }\<close>
\<close>

fun dims_loop :: "size_t list \<Rightarrow> Index \<Rightarrow> size_t \<Rightarrow> size_t list \<Rightarrow> error + size_t list" where
  "dims_loop [] var varStart vs = Inr vs"
| "dims_loop (d # dimensions) var varStart vs =
     (case store vs (var + 1) (varStart + d) of
        Inl e \<Rightarrow> Inl e
      | Inr vs' \<Rightarrow> dims_loop dimensions (var + 1) (varStart + d) vs')"

text \<open>
  \<^verbatim>\<open>VectorValues(const Container& dimensions) : varStarts_(dimensions.size()+1)\<close>:
  the boundary list is allocated with zeros, entry 0 is written, the loop writes the
  others, and the storage is resized to the last boundary without initialising it.
\<close>

definition VectorValues_dims :: "size_t list \<Rightarrow> (nat \<Rightarrow> real) \<Rightarrow> error + VectorValues" where
  "VectorValues_dims dimensions fresh =
     (case store (replicate (unat (vec_size dimensions + 1)) 0) 0 0 of
        Inl e \<Rightarrow> Inl e
      | Inr vs0 \<Rightarrow>
          (case dims_loop dimensions 0 0 vs0 of
             Inl e \<Rightarrow> Inl e
           | Inr vs \<Rightarrow> Inr \<lparr>values' = resize [] (last vs) False fresh, varStarts = vs\<rparr>))"

text \<open>
  The loop of \<^verbatim>\<open>VectorValues(Index nVars, size_t varDim)\<close>:
  \<^verbatim>\<open>for(Index j=1; j<=nVars; ++j) varStarts_[j] = (varStart += varDim);\<close>
  With \<open>nVars = 2^64 - 1\<close> the test \<open>j \<le> nVars\<close> never fails, so the loop is a partial
  function: \<open>None\<close> is a loop that does not return.
\<close>

partial_function (option) uniform_loop ::
  "Index \<Rightarrow> size_t \<Rightarrow> Index \<Rightarrow> size_t \<Rightarrow> size_t list \<Rightarrow> (error + size_t list) option" where
  "uniform_loop nVars varDim j varStart vs =
     (if j \<le> nVars then
        (if unat j < length vs
         then uniform_loop nVars varDim (j + 1) (varStart + varDim) (vs[unat j := varStart + varDim])
         else Some (Inl undefined_behaviour))
      else Some (Inr vs))"

definition VectorValues_uniform ::
  "Index \<Rightarrow> size_t \<Rightarrow> (nat \<Rightarrow> real) \<Rightarrow> (error + VectorValues) option" where
  "VectorValues_uniform nVars varDim fresh =
     (case store (replicate (unat (nVars + 1)) 0) 0 0 of
        Inl e \<Rightarrow> Some (Inl e)
      | Inr vs0 \<Rightarrow>
          (case uniform_loop nVars varDim 1 0 vs0 of
             None \<Rightarrow> None
           | Some (Inl e) \<Rightarrow> Some (Inl e)
           | Some (Inr vs) \<Rightarrow>
               Some (Inr \<lparr>values' = resize [] (last vs) False fresh, varStarts = vs\<rparr>)))"

text \<open>
  \<^verbatim>\<open>VectorValues(const std::vector<size_t>& dimensions, const Vector& values)\<close>: the
  storage is the given vector; the constructor asserts that its size is the last boundary.
\<close>

definition VectorValues_dims_values :: "size_t list \<Rightarrow> Vector \<Rightarrow> error + VectorValues" where
  "VectorValues_dims_values dimensions vals =
     (case store (replicate (unat (vec_size dimensions + 1)) 0) 0 0 of
        Inl e \<Rightarrow> Inl e
      | Inr vs0 \<Rightarrow>
          (case dims_loop dimensions 0 0 vs0 of
             Inl e \<Rightarrow> Inl e
           | Inr vs \<Rightarrow>
               (if last vs = vec_size vals then Inr \<lparr>values' = vals, varStarts = vs\<rparr>
                else Inl assertion_failure)))"

text \<open>\<^verbatim>\<open>SameStructure\<close>: the boundaries of the other container, fresh storage.\<close>

definition SameStructure :: "VectorValues \<Rightarrow> (nat \<Rightarrow> real) \<Rightarrow> VectorValues" where
  "SameStructure otherValues fresh =
     \<lparr>values' = resize [] (last (varStarts otherValues)) False fresh,
      varStarts = varStarts otherValues\<rparr>"

subsection \<open>Block access\<close>

text \<open>
  \<^verbatim>\<open>operator[]\<close>: \<open>checkVariable\<close> asserts \<open>variable < varStarts.size()-1\<close>, then the
  view on \<open>range(varStarts[variable], varStarts[variable+1])\<close> is made. Under the
  assertion both indices are inside \<open>varStarts\<close> when its length fits in a \<open>size_t\<close>.
\<close>

definition operator_index :: "VectorValues \<Rightarrow> Index \<Rightarrow> error + range" where
  "operator_index v variable =
     (if variable < size_VV v
      then mk_range (varStarts v ! unat variable) (varStarts v ! unat (variable + 1))
      else Inl assertion_failure)"

text \<open>
  Reading the block \<open>v[variable]\<close> and assigning a vector to it. A failed assignment
  returns the error with the container as it is left.
\<close>

definition read_block :: "VectorValues \<Rightarrow> Index \<Rightarrow> error + Vector" where
  "read_block v variable =
     (case operator_index v variable of
        Inl e \<Rightarrow> Inl e
      | Inr r \<Rightarrow> read_range (values' v) r)"

definition assign_block ::
  "VectorValues \<Rightarrow> Index \<Rightarrow> Vector \<Rightarrow> (error \<times> VectorValues) + VectorValues" where
  "assign_block v variable e =
     (case operator_index v variable of
        Inl err \<Rightarrow> Inl (err, v)
      | Inr r \<Rightarrow>
          (case assign_range (values' v) r e of
             Inl (err, vals) \<Rightarrow> Inl (err, v\<lparr>values' := vals\<rparr>)
           | Inr vals \<Rightarrow> Inr (v\<lparr>values' := vals\<rparr>)))"

subsection \<open>Preallocation and append\<close>

text \<open>
  \<^verbatim>\<open>reserve\<close>: \<^verbatim>\<open>values_.resize(std::max(totalDims, values_.size()))\<close> keeps the old
  entries; \<^verbatim>\<open>varStarts_.reserve(nVars+1)\<close> changes no entry of the boundary list.
\<close>

definition reserve :: "Index \<Rightarrow> size_t \<Rightarrow> (nat \<Rightarrow> real) \<Rightarrow> VectorValues \<Rightarrow> VectorValues" where
  "reserve nVars totalDims fresh v =
     v\<lparr>values' := resize (values' v) (max totalDims (vec_size (values' v))) True fresh\<rparr>"

text \<open>
  \<^verbatim>\<open>push_back_preallocated\<close>: the boundary is appended first, then the block is assigned
  through \<open>operator[]\<close>, whose checks fail when the storage is too short. The result is the
  outcome together with the container as the call leaves it, also when a check fails.
\<close>

definition push_back_preallocated :: "Vector \<Rightarrow> VectorValues \<Rightarrow> (error + Index) \<times> VectorValues" where
  "push_back_preallocated vector v =
     (let var = vec_size (varStarts v) - 1;
          v1 = v\<lparr>varStarts := varStarts v @ [last (varStarts v) + vec_size vector]\<rparr>
      in case assign_block v1 var vector of
           Inl (e, v2) \<Rightarrow> (Inl e, v2)
         | Inr v2 \<Rightarrow> (Inr var, v2))"

subsection \<open>Whole-buffer operations\<close>

definition makeZero :: "VectorValues \<Rightarrow> VectorValues" where
  "makeZero v = v\<lparr>values' := replicate (unat (vec_size (values' v))) 0\<rparr>"

text \<open>\<^verbatim>\<open>dot\<close> (member and friend), \<^verbatim>\<open>scal\<close> and \<^verbatim>\<open>axpy\<close> pass the whole \<open>values'\<close>.\<close>

definition dot :: "VectorValues \<Rightarrow> VectorValues \<Rightarrow> error + real" where
  "dot V1 V2 = vector_dot (values' V1) (values' V2)"

definition scal :: "real \<Rightarrow> VectorValues \<Rightarrow> VectorValues" where
  "scal alpha x = x\<lparr>values' := vector_scal alpha (values' x)\<rparr>"

definition axpy :: "real \<Rightarrow> VectorValues \<Rightarrow> VectorValues \<Rightarrow> error + VectorValues" where
  "axpy alpha x y =
     (case vector_axpy alpha (values' x) (values' y) of
        Inl e \<Rightarrow> Inl e
      | Inr vals \<Rightarrow> Inr (y\<lparr>values' := vals\<rparr>))"

text \<open>
  \<^verbatim>\<open>operator+\<close>: asserts equal boundary lists, then adds the projections of both storages
  on \<open>range(0, varStarts.back())\<close>; ublas checks that the two summands have one size.
\<close>

definition operator_plus :: "VectorValues \<Rightarrow> VectorValues \<Rightarrow> error + VectorValues" where
  "operator_plus v c =
     (if varStarts v \<noteq> varStarts c then Inl assertion_failure
      else case mk_range 0 (last (varStarts v)) of
        Inl e \<Rightarrow> Inl e
      | Inr r1 \<Rightarrow>
          (case mk_range 0 (last (varStarts c)) of
             Inl e \<Rightarrow> Inl e
           | Inr r2 \<Rightarrow>
               (case read_range (values' v) r1 of
                  Inl e \<Rightarrow> Inl e
                | Inr a \<Rightarrow>
                    (case read_range (values' c) r2 of
                       Inl e \<Rightarrow> Inl e
                     | Inr b \<Rightarrow>
                         (if length a \<noteq> length b then Inl bad_size
                          else Inr \<lparr>values' = map2 (+) a b, varStarts = varStarts v\<rparr>)))))"

subsection \<open>Equality\<close>

text \<open>
  The loop of \<^verbatim>\<open>equals\<close>, from \<open>var\<close> on:
  \<^verbatim>\<open>for(Index var=0; var<size(); ++var)
       if(!equal_with_abs_tol(expected[var],operator[](var),tol)) return false;\<close>
\<close>

function equals_loop :: "VectorValues \<Rightarrow> VectorValues \<Rightarrow> real \<Rightarrow> Index \<Rightarrow> error + bool" where
  "equals_loop this expected tol var =
     (if var < size_VV this then
        (case read_block expected var of
           Inl e \<Rightarrow> Inl e
         | Inr a \<Rightarrow>
             (case read_block this var of
                Inl e \<Rightarrow> Inl e
              | Inr b \<Rightarrow>
                  (if \<not> equal_with_abs_tol a b tol then Inr False
                   else equals_loop this expected tol (var + 1))))
      else Inr True)"
  by pat_completeness auto
termination
proof (relation "measure (\<lambda>(this, expected, tol, var). unat (size_VV this - var))")
  show "wf (measure (\<lambda>(this, expected, tol, var). unat (size_VV this - var)))"
    by simp
next
  fix this expected :: VectorValues and tol :: real and var :: Index and a b :: Vector
  assume lt: "var < size_VV this"
  have below: "unat var < unat (size_VV this)"
    using lt by (simp add: word_less_nat_alt)
  have "Suc (unat var) < 2 ^ LENGTH(64)"
    using below unsigned_less [of "size_VV this", where ?'a = nat] by linarith
  then have suc: "unat (var + 1) = Suc (unat var)"
    by (simp add: unat_word_ariths)
  have "var + 1 \<le> size_VV this"
    using below suc by (simp add: word_le_nat_alt)
  then have "unat (size_VV this - (var + 1)) = unat (size_VV this) - unat (var + 1)"
    by (rule unat_sub)
  moreover have "unat (size_VV this - var) = unat (size_VV this) - unat var"
    by (rule unat_sub) (use lt in simp)
  ultimately have "unat (size_VV this - (var + 1)) < unat (size_VV this - var)"
    using below suc by linarith
  then show "((this, expected, tol, var + 1), (this, expected, tol, var))
        \<in> measure (\<lambda>(this, expected, tol, var). unat (size_VV this - var))"
    by simp
qed

declare equals_loop.simps [simp del]

definition equals :: "VectorValues \<Rightarrow> VectorValues \<Rightarrow> real \<Rightarrow> error + bool" where
  "equals this expected tol =
     (if size_VV this \<noteq> size_VV expected then Inr False
      else equals_loop this expected tol 0)"

subsection \<open>Iterator\<close>

text \<open>
  \<^verbatim>\<open>_impl_iterator\<close>: a reference to the container and the current index. The operators
  that return \<open>*this\<close> are modelled by the iterator they leave; the postfix operators
  throw, so they return the error together with the iterator as it is left.
\<close>

record iterator =
  config :: VectorValues
  curVariable :: Index

definition begin_it :: "VectorValues \<Rightarrow> iterator" where
  "begin_it v = \<lparr>config = v, curVariable = 0\<rparr>"

definition end_it :: "VectorValues \<Rightarrow> iterator" where
  "end_it v = \<lparr>config = v, curVariable = vec_size (varStarts v) - 1\<rparr>"

definition pre_increment :: "iterator \<Rightarrow> iterator" where
  "pre_increment it = it\<lparr>curVariable := curVariable it + 1\<rparr>"

definition pre_decrement :: "iterator \<Rightarrow> iterator" where
  "pre_decrement it = it\<lparr>curVariable := curVariable it - 1\<rparr>"

definition post_increment :: "iterator \<Rightarrow> (error + iterator) \<times> iterator" where
  "post_increment it = (Inl (runtime_error ''Use prefix ++ operator''), it)"

definition post_decrement :: "iterator \<Rightarrow> (error + iterator) \<times> iterator" where
  "post_decrement it = (Inl (runtime_error ''Use prefix -- operator''), it)"

text \<open>
  \<^verbatim>\<open>operator+=(ptrdiff_t step) { curVariable_ += step; return *this; }\<close> and
  \<^verbatim>\<open>operator-=(ptrdiff_t step) { curVariable_ += step; return *this; }\<close>
\<close>

definition plus_assign :: "iterator \<Rightarrow> ptrdiff_t \<Rightarrow> iterator" where
  "plus_assign it step = it\<lparr>curVariable := curVariable it + step\<rparr>"

definition minus_assign :: "iterator \<Rightarrow> ptrdiff_t \<Rightarrow> iterator" where
  "minus_assign it step = it\<lparr>curVariable := curVariable it + step\<rparr>"

text \<open>\<^verbatim>\<open>value_type operator*() { return config_[curVariable_]; }\<close>\<close>

definition dereference :: "iterator \<Rightarrow> error + range" where
  "dereference it = operator_index (config it) (curVariable it)"

subsection \<open>Invariants and specifications\<close>

text \<open>
  A container that exists in memory has a boundary list with at least one entry, and
  both of its vectors have lengths that a \<open>size_t\<close> can hold.
\<close>

definition in_memory :: "VectorValues \<Rightarrow> bool" where
  "in_memory v \<longleftrightarrow>
     varStarts v \<noteq> [] \<and> length (varStarts v) < 2 ^ 64 \<and> length (values' v) < 2 ^ 64"

text \<open>
  The invariant of the data model: the first boundary is 0, the boundaries do not
  decrease, and the used length is at most the capacity.
\<close>

definition invariant :: "VectorValues \<Rightarrow> bool" where
  "invariant v \<longleftrightarrow> varStarts v ! 0 = 0 \<and> sorted (varStarts v) \<and> dim v \<le> dimCapacity v"

text \<open>
  The boundary list the specification asks for: entry \<open>k\<close> is the sum of the first \<open>k\<close>
  dimensions, for \<open>k\<close> from 0 to the number of dimensions (sums of \<open>size_t\<close>, so they wrap).
\<close>

definition running_sum :: "size_t list \<Rightarrow> size_t list" where
  "running_sum D = map (\<lambda>k. sum_list (take k D)) [0 ..< Suc (length D)]"

text \<open>The partial sums after a start value, in the order the loops compute them.\<close>

fun scan :: "size_t \<Rightarrow> size_t list \<Rightarrow> size_t list" where
  "scan s [] = []"
| "scan s (d # ds) = (s + d) # scan (s + d) ds"

text \<open>
  A valid list of dimensions: the list with one more entry and the total of the
  dimensions both fit in a \<open>size_t\<close>.
\<close>

definition valid_dims :: "size_t list \<Rightarrow> bool" where
  "valid_dims D \<longleftrightarrow> Suc (length D) < 2 ^ 64 \<and> sum_list (map unat D) < 2 ^ 64"

text \<open>The inner product of the used ranges \<open>[0, dim())\<close> of two containers.\<close>

definition used_range_dot :: "VectorValues \<Rightarrow> VectorValues \<Rightarrow> real" where
  "used_range_dot A B =
     sum_list (map2 (*) (take (unat (dim A)) (values' A)) (take (unat (dim B)) (values' B)))"

subsection \<open>Example states\<close>

text \<open>Four blocks of dimension 1, as built from dimensions \<open>[1,1,1,1]\<close> and four values.\<close>

definition four_blocks :: VectorValues where
  "four_blocks = \<lparr>values' = [10, 20, 30, 40], varStarts = [0, 1, 2, 3, 4]\<rparr>"

text \<open>The same container after \<open>reserve(6, 10)\<close>, when every new cell holds 7.\<close>

definition reserved_blocks :: VectorValues where
  "reserved_blocks = reserve 6 10 (\<lambda>k. 7) four_blocks"

text \<open>
  One block of dimension 1 holding 3, in three storages: of capacity 1 (as the constructor
  from dimensions \<open>[1]\<close> and values \<open>[3]\<close> makes it), and of capacity 2 after
  \<open>reserve(1, 2)\<close> and one append, when the cell beyond \<open>dim()\<close> holds 0 or 1.
\<close>

definition exact_block :: VectorValues where
  "exact_block = \<lparr>values' = [3], varStarts = [0, 1]\<rparr>"

definition slack_zero_block :: VectorValues where
  "slack_zero_block = \<lparr>values' = [3, 0], varStarts = [0, 1]\<rparr>"

definition slack_one_block :: VectorValues where
  "slack_one_block = \<lparr>values' = [3, 1], varStarts = [0, 1]\<rparr>"

text \<open>
  Three containers that do not satisfy the invariant. \<open>overfull_blocks\<close> is what a failed
  \<open>push_back_preallocated\<close> of one entry leaves of \<open>four_blocks\<close>: five boundaries past 0,
  four cells. \<open>wrapped_blocks\<close> is what the constructor returns for the dimensions
  \<open>[2^64 - 1, 2]\<close>, whose total wraps around. \<open>folded_blocks\<close> is what the constructor
  returns for the dimensions \<open>[3, 2^64 - 2]\<close> (boundaries \<open>[0, 3, 1]\<close>, one cell) after
  \<open>reserve(0, 3)\<close>, when the cells hold 0.
\<close>

definition overfull_blocks :: VectorValues where
  "overfull_blocks = \<lparr>values' = [10, 20, 30, 40], varStarts = [0, 1, 2, 3, 4, 5]\<rparr>"

definition wrapped_blocks :: VectorValues where
  "wrapped_blocks = \<lparr>values' = [0], varStarts = [0, 18446744073709551615, 1]\<rparr>"

definition folded_blocks :: VectorValues where
  "folded_blocks = \<lparr>values' = [0, 0, 0], varStarts = [0, 3, 1]\<rparr>"

text \<open>Two blocks of dimension 1 holding 0 and 1, with no spare capacity.\<close>

definition two_blocks :: VectorValues where
  "two_blocks = \<lparr>values' = [0, 1], varStarts = [0, 1, 2]\<rparr>"

section \<open>Arithmetic of sizes and the constructor loops\<close>

lemma unat_vec_size: "length xs < 2 ^ 64 \<Longrightarrow> unat (vec_size xs) = length xs"
  by (simp add: vec_size_def unat_of_nat)

lemma unat_plus_one:
  fixes w :: "64 word"
  shows "Suc (unat w) < 2 ^ 64 \<Longrightarrow> unat (w + 1) = Suc (unat w)"
  by (simp add: unat_word_ariths)

lemma unat_sum_list:
  fixes D :: "64 word list"
  shows "sum_list (map unat D) < 2 ^ 64 \<Longrightarrow> unat (sum_list D) = sum_list (map unat D)"
proof (induction D)
  case Nil
  then show ?case by simp
next
  case (Cons d D)
  then have "unat (sum_list D) = sum_list (map unat D)" by simp
  moreover have "unat d + sum_list (map unat D) < 2 ^ 64" using Cons.prems by simp
  ultimately show ?case by (simp add: unat_word_ariths)
qed

lemma sum_list_take_mono:
  fixes xs :: "nat list"
  shows "i \<le> j \<Longrightarrow> sum_list (take i xs) \<le> sum_list (take j xs)"
proof -
  assume "i \<le> j"
  then obtain k where j: "j = i + k" using le_Suc_ex by blast
  show ?thesis by (simp add: j take_add)
qed

lemma sum_list_take_le:
  fixes xs :: "nat list"
  shows "sum_list (take i xs) \<le> sum_list xs"
  using sum_list_take_mono [of i "length xs" xs] by (cases "i \<le> length xs") simp_all

lemma unat_prefix_sum:
  fixes D :: "64 word list"
  assumes "sum_list (map unat D) < 2 ^ 64"
  shows "unat (sum_list (take k D)) = sum_list (take k (map unat D))"
proof -
  have "sum_list (map unat (take k D)) \<le> sum_list (map unat D)"
    using sum_list_take_le [of k "map unat D"] by (simp add: take_map)
  then have "sum_list (map unat (take k D)) < 2 ^ 64" using assms by linarith
  then show ?thesis by (simp add: unat_sum_list take_map)
qed

lemma length_scan [simp]: "length (scan s ds) = length ds"
  by (induction ds arbitrary: s) auto

text \<open>
  The loop over the dimensions writes the partial sums into the entries after \<open>var\<close> and
  leaves the others, when those entries exist.
\<close>

lemma dims_loop_scan:
  "unat var + length ds < length vs \<Longrightarrow> length vs \<le> 2 ^ 64 \<Longrightarrow>
   dims_loop ds var s vs =
     Inr (take (Suc (unat var)) vs @ scan s ds @ drop (Suc (unat var) + length ds) vs)"
proof (induction ds arbitrary: var s vs)
  case Nil
  then show ?case by simp
next
  case (Cons d ds)
  have suc: "unat (var + 1) = Suc (unat var)"
    using Cons.prems by (intro unat_plus_one) simp
  have inb: "Suc (unat var) < length vs"
    using Cons.prems by simp
  have st: "store vs (var + 1) (s + d) = Inr (vs[Suc (unat var) := s + d])"
    using inb by (simp add: store_def suc)
  have ih: "dims_loop ds (var + 1) (s + d) (vs[Suc (unat var) := s + d]) =
      Inr (take (Suc (Suc (unat var))) (vs[Suc (unat var) := s + d]) @ scan (s + d) ds
           @ drop (Suc (Suc (unat var)) + length ds) (vs[Suc (unat var) := s + d]))"
    using Cons.IH [of "var + 1" "vs[Suc (unat var) := s + d]" "s + d"] Cons.prems
    by (simp add: suc)
  have t: "take (Suc (Suc (unat var))) (vs[Suc (unat var) := s + d])
      = take (Suc (unat var)) vs @ [s + d]"
    using inb by (simp add: take_Suc_conv_app_nth [of "Suc (unat var)"])
  show ?case
    by (simp add: st ih t)
qed

lemma scan_sum: "scan s ds = map (\<lambda>k. s + sum_list (take (Suc k) ds)) [0 ..< length ds]"
proof (induction ds arbitrary: s)
  case Nil
  then show ?case by simp
next
  case (Cons d ds)
  have "[0 ..< length (d # ds)] = 0 # map Suc [0 ..< length ds]"
    by (simp add: upt_conv_Cons map_Suc_upt del: upt_Suc)
  then show ?case
    by (simp add: Cons.IH [of "s + d"] add.assoc comp_def del: upt_Suc)
qed

lemma running_sum_scan: "running_sum D = 0 # scan 0 D"
proof -
  have "[0 ..< Suc (length D)] = 0 # map Suc [0 ..< length D]"
    by (simp add: upt_conv_Cons map_Suc_upt del: upt_Suc)
  then show ?thesis
    by (simp add: running_sum_def scan_sum comp_def del: upt_Suc)
qed

lemma dims_boundaries:
  assumes "Suc (length D) < 2 ^ 64"
  shows "dims_loop D 0 0 ((replicate (unat (vec_size D + 1)) 0)[0 := 0]) = Inr (running_sum D)"
    and "store (replicate (unat (vec_size D + 1)) (0 :: size_t)) 0 0
           = Inr ((replicate (unat (vec_size D + 1)) 0)[0 := 0])"
proof -
  have len: "unat (vec_size D + 1) = Suc (length D)"
    using assms by (simp add: unat_plus_one unat_vec_size)
  show "store (replicate (unat (vec_size D + 1)) (0 :: size_t)) 0 0
           = Inr ((replicate (unat (vec_size D + 1)) 0)[0 := 0])"
    by (simp add: store_def len)
  have "dims_loop D 0 0 ((replicate (Suc (length D)) 0)[0 := 0])
      = Inr (take (Suc (unat (0 :: size_t))) ((replicate (Suc (length D)) 0)[0 := 0]) @ scan 0 D
          @ drop (Suc (unat (0 :: size_t)) + length D) ((replicate (Suc (length D)) 0)[0 := 0]))"
    using assms by (intro dims_loop_scan) simp_all
  then show "dims_loop D 0 0 ((replicate (unat (vec_size D + 1)) 0)[0 := 0]) = Inr (running_sum D)"
    by (simp add: len running_sum_scan)
qed

lemma length_running_sum [simp]: "length (running_sum D) = Suc (length D)"
  by (simp add: running_sum_def)

lemma nth_running_sum: "k \<le> length D \<Longrightarrow> running_sum D ! k = sum_list (take k D)"
  unfolding running_sum_def by (simp add: nth_map_upt del: upt_Suc)

lemma last_running_sum: "last (running_sum D) = sum_list D"
proof -
  have "last (running_sum D) = running_sum D ! length D"
    by (simp add: last_conv_nth running_sum_def del: upt_Suc)
  then show ?thesis by (simp add: nth_running_sum)
qed

lemma sorted_running_sum:
  assumes "sum_list (map unat D) < 2 ^ 64"
  shows "sorted (running_sum D)"
proof -
  have "running_sum D ! i \<le> running_sum D ! j" if "i \<le> j" "j < length (running_sum D)" for i j
  proof -
    have "unat (sum_list (take i D)) \<le> unat (sum_list (take j D))"
      using that assms by (simp add: unat_prefix_sum sum_list_take_mono)
    then show ?thesis
      using that by (simp add: nth_running_sum word_le_nat_alt)
  qed
  then show ?thesis by (simp add: sorted_iff_nth_mono del: length_running_sum)
qed

section \<open>Reading a block of a container that satisfies the invariant\<close>

lemma unat_size_VV: "in_memory v \<Longrightarrow> Suc (unat (size_VV v)) = length (varStarts v)"
proof -
  assume a: "in_memory v"
  then have lt: "length (varStarts v) < 2 ^ 64"
    by (simp add: in_memory_def)
  have pos: "Suc 0 \<le> length (varStarts v)"
    using a by (cases "varStarts v") (simp_all add: in_memory_def)
  have "(1 :: 64 word) \<le> vec_size (varStarts v)"
    using pos lt by (simp add: word_le_nat_alt unat_vec_size)
  then have "unat (vec_size (varStarts v) - 1) = unat (vec_size (varStarts v)) - unat (1 :: 64 word)"
    by (rule unat_sub)
  then show ?thesis using pos lt by (simp add: size_VV_def unat_vec_size)
qed

lemma read_block_sorted:
  assumes mem: "in_memory v" and srt: "sorted (varStarts v)" and cap: "dim v \<le> dimCapacity v"
    and lt: "var < size_VV v"
  shows "read_block v var =
           Inr (take (unat (varStarts v ! Suc (unat var)) - unat (varStarts v ! unat var))
                  (drop (unat (varStarts v ! unat var)) (values' v)))"
    and "Suc (unat var) < length (varStarts v)"
    and "unat (varStarts v ! unat var) \<le> unat (varStarts v ! Suc (unat var))"
    and "unat (varStarts v ! Suc (unat var)) \<le> length (values' v)"
    and "unat (varStarts v ! Suc (unat var)) \<le> unat (dim v)"
proof -
  have below: "unat var < unat (size_VV v)"
    using lt by (simp add: word_less_nat_alt)
  then show inb: "Suc (unat var) < length (varStarts v)"
    using unat_size_VV [OF mem] by linarith
  have len: "length (varStarts v) < 2 ^ 64" "length (values' v) < 2 ^ 64" "varStarts v \<noteq> []"
    using mem by (simp_all add: in_memory_def)
  have suc: "unat (var + 1) = Suc (unat var)"
    using inb len by (intro unat_plus_one) linarith
  have le: "varStarts v ! unat var \<le> varStarts v ! Suc (unat var)"
    using srt inb by (simp add: sorted_iff_nth_mono)
  then show le_nat: "unat (varStarts v ! unat var) \<le> unat (varStarts v ! Suc (unat var))"
    by (simp add: word_le_nat_alt)
  have "varStarts v ! Suc (unat var) \<le> last (varStarts v)"
    using srt inb len by (simp add: last_conv_nth sorted_iff_nth_mono)
  then show "unat (varStarts v ! Suc (unat var)) \<le> unat (dim v)"
    by (simp add: word_le_nat_alt dim_def)
  moreover have "unat (dim v) \<le> length (values' v)"
    using cap len by (simp add: word_le_nat_alt dimCapacity_def unat_vec_size)
  ultimately show top: "unat (varStarts v ! Suc (unat var)) \<le> length (values' v)"
    by linarith
  have sz: "unat (varStarts v ! Suc (unat var) - varStarts v ! unat var)
      = unat (varStarts v ! Suc (unat var)) - unat (varStarts v ! unat var)"
    using le by (rule unat_sub)
  show "read_block v var =
           Inr (take (unat (varStarts v ! Suc (unat var)) - unat (varStarts v ! unat var))
                  (drop (unat (varStarts v ! unat var)) (values' v)))"
    using lt le le_nat top
    by (simp add: read_block_def operator_index_def mk_range_def read_range_def suc sz)
qed

lemma read_block_ok:
  assumes mem: "in_memory v" and inv: "invariant v" and lt: "var < size_VV v"
  shows "read_block v var =
           Inr (take (unat (varStarts v ! Suc (unat var)) - unat (varStarts v ! unat var))
                  (drop (unat (varStarts v ! unat var)) (values' v)))"
    and "Suc (unat var) < length (varStarts v)"
    and "unat (varStarts v ! unat var) \<le> unat (varStarts v ! Suc (unat var))"
    and "unat (varStarts v ! Suc (unat var)) \<le> length (values' v)"
    and "unat (varStarts v ! Suc (unat var)) \<le> unat (dim v)"
proof -
  have srt: "sorted (varStarts v)" and cap: "dim v \<le> dimCapacity v"
    using inv by (simp_all add: invariant_def)
  note r = read_block_sorted [OF mem srt cap lt]
  show "read_block v var =
           Inr (take (unat (varStarts v ! Suc (unat var)) - unat (varStarts v ! unat var))
                  (drop (unat (varStarts v ! unat var)) (values' v)))"
    by (rule r(1))
  show "Suc (unat var) < length (varStarts v)"
    by (rule r(2))
  show "unat (varStarts v ! unat var) \<le> unat (varStarts v ! Suc (unat var))"
    by (rule r(3))
  show "unat (varStarts v ! Suc (unat var)) \<le> length (values' v)"
    by (rule r(4))
  show "unat (varStarts v ! Suc (unat var)) \<le> unat (dim v)"
    by (rule r(5))
qed

section \<open>The constructor from a list of dimensions\<close>

lemma length_resize_fresh [simp]: "length (resize [] n False fresh) = unat n"
  by (simp add: resize_def)

lemma dims_result:
  assumes "Suc (length D) < 2 ^ 64"
  shows "VectorValues_dims D fresh =
     Inr \<lparr>values' = resize [] (sum_list D) False fresh, varStarts = running_sum D\<rparr>"
  using dims_boundaries [OF assms]
  by (simp add: VectorValues_dims_def last_running_sum)

lemma running_sum_in_memory_invariant:
  assumes "valid_dims D" and "varStarts v = running_sum D"
    and "length (values' v) = unat (sum_list D)"
  shows "in_memory v" and "invariant v"
proof -
  have len: "Suc (length D) < 2 ^ 64" and tot: "sum_list (map unat D) < 2 ^ 64"
    using assms(1) by (simp_all add: valid_dims_def)
  have vs: "varStarts v \<noteq> []" "length (varStarts v) = Suc (length D)"
    using assms(2) by (simp_all add: running_sum_def)
  have vl: "length (values' v) < 2 ^ 64"
    unfolding assms(3) using unsigned_less [of "sum_list D", where ?'a = nat] by simp
  show "in_memory v"
    using vs len vl by (simp add: in_memory_def)
  have "dimCapacity v = dim v"
    by (simp add: dimCapacity_def dim_def vec_size_def assms last_running_sum)
  then show "invariant v"
    using sorted_running_sum [OF tot]
    by (simp add: invariant_def assms(2) nth_running_sum)
qed

section \<open>The constructor from a count and a uniform dimension\<close>

lemma uniform_loop_scan:
  assumes "length vs = Suc (unat nVars)" and "Suc (unat nVars) < 2 ^ 64"
    and "unat j \<le> Suc (unat nVars)" and "k = Suc (unat nVars) - unat j"
  shows "uniform_loop nVars d j s vs = Some (Inr (take (unat j) vs @ scan s (replicate k d)))"
  using assms
proof (induction k arbitrary: j s vs)
  case 0
  then have "unat j = Suc (unat nVars)" by linarith
  then have "\<not> j \<le> nVars" and "take (unat j) vs = vs"
    using 0 by (simp_all add: word_le_nat_alt)
  then show ?case
    using 0 by (subst uniform_loop.simps) simp
next
  case (Suc k)
  have le: "unat j \<le> unat nVars" and inb: "unat j < length vs"
    using Suc.prems by linarith+
  have suc: "unat (j + 1) = Suc (unat j)"
    using le Suc.prems by (intro unat_plus_one) linarith
  have ih: "uniform_loop nVars d (j + 1) (s + d) (vs[unat j := s + d]) =
      Some (Inr (take (unat (j + 1)) (vs[unat j := s + d]) @ scan (s + d) (replicate k d)))"
    using Suc.prems le by (intro Suc.IH) (simp_all add: suc)
  have t: "take (Suc (unat j)) (vs[unat j := s + d]) = take (unat j) vs @ [s + d]"
    using inb by (simp add: take_Suc_conv_app_nth)
  show ?case
    using le inb by (subst uniform_loop.simps) (simp add: word_le_nat_alt ih suc t)
qed

lemma no_wrap_plus_one:
  fixes n :: "64 word"
  assumes "n + 1 \<noteq> 0"
  shows "Suc (unat n) < 2 ^ 64"
proof (rule ccontr)
  assume "\<not> Suc (unat n) < 2 ^ 64"
  moreover have "unat n < 2 ^ 64"
    using unsigned_less [of n, where ?'a = nat] by simp
  ultimately have "Suc (unat n) = 2 ^ 64" by linarith
  then have "unat (n + 1) = 0" by (simp add: unat_word_ariths)
  then show False using assms by (simp add: unat_eq_0)
qed

lemma uniform_result:
  assumes "Suc (unat nVars) < 2 ^ 64"
  shows "VectorValues_uniform nVars d fresh =
     Some (Inr \<lparr>values' = resize [] (sum_list (replicate (unat nVars) d)) False fresh,
                varStarts = running_sum (replicate (unat nVars) d)\<rparr>)"
proof -
  have len: "unat (nVars + 1) = Suc (unat nVars)"
    using assms by (rule unat_plus_one)
  have st: "store (replicate (unat (nVars + 1)) (0 :: size_t)) 0 0
      = Inr (replicate (Suc (unat nVars)) 0)"
    by (simp add: store_def len)
  have "uniform_loop nVars d 1 0 (replicate (Suc (unat nVars)) 0) =
      Some (Inr (take (unat (1 :: size_t)) (replicate (Suc (unat nVars)) 0)
                 @ scan 0 (replicate (unat nVars) d)))"
    using assms by (intro uniform_loop_scan) simp_all
  then have lp: "uniform_loop nVars d 1 0 (replicate (Suc (unat nVars)) 0) =
      Some (Inr (running_sum (replicate (unat nVars) d)))"
    by (simp add: running_sum_scan)
  then have lp': "uniform_loop nVars d 1 0 (0 # replicate (unat nVars) 0) =
      Some (Inr (running_sum (replicate (unat nVars) d)))"
    by simp
  show ?thesis
    by (simp add: VectorValues_uniform_def st lp' last_running_sum)
qed

section \<open>Reserve and equality: auxiliary facts\<close>

lemma resize_preserve_grow:
  assumes "length v \<le> unat n"
  shows "resize v n True fresh = v @ map fresh [length v ..< unat n]"
    and "length (resize v n True fresh) = unat n"
  using assms by (simp_all add: resize_def)

lemma equal_with_abs_tol_refl: "0 \<le> tol \<Longrightarrow> equal_with_abs_tol a a tol"
  by (induction a) auto

lemma equals_loop_refl:
  "expected = this \<Longrightarrow> in_memory this \<Longrightarrow> sorted (varStarts this) \<Longrightarrow>
   dim this \<le> dimCapacity this \<Longrightarrow> 0 \<le> tol \<Longrightarrow>
   equals_loop this expected tol var = Inr True"
proof (induction this expected tol var rule: equals_loop.induct)
  case (1 this expected tol var)
  show ?case
  proof (cases "var < size_VV this")
    case True
    obtain blk where blk: "read_block this var = Inr blk"
      using read_block_sorted(1) [OF "1.prems"(2,3,4) True] by blast
    have eq: "equal_with_abs_tol blk blk tol"
      using "1.prems"(5) by (rule equal_with_abs_tol_refl)
    have "equals_loop this expected tol (var + 1) = Inr True"
      using "1.IH" [of blk blk] True blk eq "1.prems" by simp
    then show ?thesis
      using True blk eq "1.prems"(1) by (subst equals_loop.simps) simp
  next
    case False
    then show ?thesis by (subst equals_loop.simps) simp
  qed
qed

lemma four_blocks_ok: "in_memory four_blocks" "invariant four_blocks"
  by (simp_all add: in_memory_def invariant_def four_blocks_def dim_def dimCapacity_def vec_size_def)

section \<open>Appending a block: auxiliary facts\<close>

lemma size_VV_snoc: "size_VV (v\<lparr>varStarts := varStarts v @ [x]\<rparr>) = size_VV v + 1"
  by (simp add: size_VV_def vec_size_def)

lemma push_back_range:
  assumes mem: "in_memory v"
  shows "operator_index (v\<lparr>varStarts := varStarts v @ [x]\<rparr>) (vec_size (varStarts v) - 1)
           = mk_range (last (varStarts v)) x"
proof -
  let ?vs = "varStarts v"
  have len: "length ?vs < 2 ^ 64" and ne: "?vs \<noteq> []"
    using mem by (simp_all add: in_memory_def)
  have uv: "Suc (unat (vec_size ?vs - 1)) = length ?vs"
    using unat_size_VV [OF mem] by (simp add: size_VV_def)
  have next_var: "vec_size ?vs - 1 + 1 = vec_size ?vs"
    by simp
  have un: "unat (vec_size ?vs) = length ?vs"
    using len by (rule unat_vec_size)
  have sz1: "size_VV (v\<lparr>varStarts := ?vs @ [x]\<rparr>) = vec_size ?vs"
    by (simp add: size_VV_def vec_size_def)
  have lt: "vec_size ?vs - 1 < size_VV (v\<lparr>varStarts := ?vs @ [x]\<rparr>)"
    unfolding sz1 word_less_nat_alt using uv un by linarith
  have uv': "unat (vec_size ?vs - 1) = length ?vs - 1"
    using uv by linarith
  have lo: "(?vs @ [x]) ! unat (vec_size ?vs - 1) = last ?vs"
    unfolding uv' using ne by (simp add: nth_append last_conv_nth)
  have hi: "(?vs @ [x]) ! unat (vec_size ?vs - 1 + 1) = x"
    unfolding next_var un by simp
  show ?thesis
    using lt lo hi by (simp add: operator_index_def)
qed

lemma push_back_success:
  assumes mem: "in_memory v"
    and fits: "unat (dim v) + length b \<le> unat (dimCapacity v)"
  shows "push_back_preallocated b v =
     (Inr (size_VV v),
      \<lparr>values' = take (unat (dim v)) (values' v) @ b @ drop (unat (dim v) + length b) (values' v),
       varStarts = varStarts v @ [dim v + vec_size b]\<rparr>)"
    and "unat (dim v + vec_size b) = unat (dim v) + length b"
    and "unat (dim v) + length b \<le> length (values' v)"
proof -
  have cap: "unat (dimCapacity v) = length (values' v)" and vl: "length (values' v) < 2 ^ 64"
    using mem by (simp_all add: in_memory_def dimCapacity_def unat_vec_size)
  show fits': "unat (dim v) + length b \<le> length (values' v)"
    using fits cap by simp
  have bl: "length b < 2 ^ 64"
    using fits' vl by linarith
  have ub: "unat (vec_size b) = length b"
    using bl by (rule unat_vec_size)
  show sum: "unat (dim v + vec_size b) = unat (dim v) + length b"
    using fits' vl ub by (simp add: unat_word_ariths)
  have le: "dim v \<le> dim v + vec_size b"
    by (simp add: word_le_nat_alt sum)
  have rng: "mk_range (dim v) (dim v + vec_size b)
      = Inr \<lparr>range_start = dim v, range_size = vec_size b\<rparr>"
    using le by (simp add: mk_range_def)
  have asg: "assign_range (values' v) \<lparr>range_start = dim v, range_size = vec_size b\<rparr> b
      = Inr (take (unat (dim v)) (values' v) @ b @ drop (unat (dim v) + length b) (values' v))"
    using fits' by (simp add: assign_range_def ub)
  have idx: "operator_index (v\<lparr>varStarts := varStarts v @ [dim v + vec_size b]\<rparr>)
      (vec_size (varStarts v) - 1) = Inr \<lparr>range_start = dim v, range_size = vec_size b\<rparr>"
    using push_back_range [OF mem, of "dim v + vec_size b"] rng by (simp add: dim_def)
  show "push_back_preallocated b v =
     (Inr (size_VV v),
      \<lparr>values' = take (unat (dim v)) (values' v) @ b @ drop (unat (dim v) + length b) (values' v),
       varStarts = varStarts v @ [dim v + vec_size b]\<rparr>)"
    using idx asg
    by (simp add: push_back_preallocated_def assign_block_def Let_def size_VV_def dim_def)
qed


text \<open>
  A failed append writes the entries that fit: on \<open>four_blocks\<close> with one spare cell, a
  block of two entries fails after its first entry is stored.
\<close>

lemma failed_append_writes_what_fits:
  "push_back_preallocated [50, 60] \<lparr>values' = [10, 20, 30, 40, 0], varStarts = [0, 1, 2, 3, 4]\<rparr>
     = (Inl bad_index, \<lparr>values' = [10, 20, 30, 40, 50], varStarts = [0, 1, 2, 3, 4, 6]\<rparr>)"
proof -
  have idx: "operator_index \<lparr>values' = [10, 20, 30, 40, 0], varStarts = [0, 1, 2, 3, 4, 6]\<rparr> 4
      = Inr \<lparr>range_start = 4, range_size = 2\<rparr>"
    by (simp add: operator_index_def size_VV_def vec_size_def mk_range_def)
  show ?thesis
    by (simp add: push_back_preallocated_def Let_def assign_block_def idx assign_range_def
        vec_size_def)
qed

lemma operator_index_cong:
  "varStarts a = varStarts c \<Longrightarrow> operator_index a var = operator_index c var"
  by (simp add: operator_index_def size_VV_def)

lemma slice_below_prefix:
  assumes "lo \<le> hi" and "hi \<le> d" and "d \<le> length data"
  shows "take (hi - lo) (drop lo (take d data @ rest)) = take (hi - lo) (drop lo data)"
proof -
  have "take (hi - lo) (drop lo (take d data @ rest)) = take (hi - lo) (drop lo (take d data))"
    using assms by simp
  also have "\<dots> = take (hi - lo) (take (d - lo) (drop lo data))"
    by (simp add: drop_take)
  also have "\<dots> = take (hi - lo) (drop lo data)"
    using assms by (simp add: min_def)
  finally show ?thesis .
qed

lemma reserved_blocks_eq:
  "reserved_blocks = \<lparr>values' = [10, 20, 30, 40, 7, 7, 7, 7, 7, 7], varStarts = [0, 1, 2, 3, 4]\<rparr>"
proof -
  have "replicate 6 (7 :: real) = [7, 7, 7, 7, 7, 7]"
    by (simp add: eval_nat_numeral)
  then have "map (\<lambda>k. 7 :: real) [length [10, 20, 30, 40 :: real] ..< 10] = [7, 7, 7, 7, 7, 7]"
    by (simp add: map_replicate_const)
  then show ?thesis
    by (simp add: reserved_blocks_def reserve_def resize_def four_blocks_def vec_size_def)
qed

lemma reserved_blocks_ok: "in_memory reserved_blocks" "invariant reserved_blocks"
  by (simp_all add: reserved_blocks_eq in_memory_def invariant_def dim_def dimCapacity_def vec_size_def)

section \<open>Every operation keeps the invariant\<close>

lemma invariant_cong:
  "varStarts u = varStarts v \<Longrightarrow> length (values' u) = length (values' v) \<Longrightarrow>
   invariant v \<Longrightarrow> invariant u"
  by (simp add: invariant_def dim_def dimCapacity_def vec_size_def)

lemma invariant_tight:
  "varStarts u ! 0 = 0 \<Longrightarrow> sorted (varStarts u) \<Longrightarrow>
   length (values' u) = unat (last (varStarts u)) \<Longrightarrow> invariant u"
  by (simp add: invariant_def dim_def dimCapacity_def vec_size_def)

lemma default_ok: "in_memory VectorValues_default" "invariant VectorValues_default"
  by (simp_all add: in_memory_def invariant_def VectorValues_default_def dim_def)

lemma copy_eq: "VectorValues_copy V = V"
  by (simp add: VectorValues_copy_def)

lemma dims_ok:
  assumes "valid_dims D" and "VectorValues_dims D fresh = Inr u"
  shows "in_memory u" and "invariant u"
proof -
  have "Suc (length D) < 2 ^ 64"
    using assms(1) by (simp add: valid_dims_def)
  then have "u = \<lparr>values' = resize [] (sum_list D) False fresh, varStarts = running_sum D\<rparr>"
    using assms(2) dims_result [of D fresh] by simp
  then have "varStarts u = running_sum D" "length (values' u) = unat (sum_list D)"
    by simp_all
  then show "in_memory u" and "invariant u"
    using running_sum_in_memory_invariant [OF assms(1)] by blast+
qed

lemma uniform_ok:
  assumes "valid_dims (replicate (unat nVars) varDim)"
    and "VectorValues_uniform nVars varDim fresh = Some (Inr u)"
  shows "in_memory u" and "invariant u"
proof -
  have "Suc (unat nVars) < 2 ^ 64"
    using assms(1) by (simp add: valid_dims_def)
  then have "u = \<lparr>values' = resize [] (sum_list (replicate (unat nVars) varDim)) False fresh,
                varStarts = running_sum (replicate (unat nVars) varDim)\<rparr>"
    using assms(2) uniform_result [of nVars varDim fresh] by simp
  then have "varStarts u = running_sum (replicate (unat nVars) varDim)"
    "length (values' u) = unat (sum_list (replicate (unat nVars) varDim))"
    by simp_all
  then show "in_memory u" and "invariant u"
    using running_sum_in_memory_invariant [OF assms(1)] by blast+
qed

lemma dims_values_ok:
  assumes "valid_dims D" and "VectorValues_dims_values D vals = Inr u"
  shows "invariant u" and "length vals < 2 ^ 64 \<Longrightarrow> in_memory u"
proof -
  have len: "Suc (length D) < 2 ^ 64" and tot: "sum_list (map unat D) < 2 ^ 64"
    using assms(1) by (simp_all add: valid_dims_def)
  have u: "u = \<lparr>values' = vals, varStarts = running_sum D\<rparr>" and eq: "sum_list D = vec_size vals"
    using assms(2) dims_boundaries [OF len]
    by (simp_all add: VectorValues_dims_values_def last_running_sum split: if_splits)
  show "invariant u"
    using sorted_running_sum [OF tot]
    by (simp add: invariant_def u nth_running_sum dim_def dimCapacity_def last_running_sum eq)
  show "in_memory u" if "length vals < 2 ^ 64"
    using that len by (simp add: in_memory_def u running_sum_def)
qed

lemma same_structure_ok:
  "invariant v \<Longrightarrow> invariant (SameStructure v fresh)"
  "in_memory v \<Longrightarrow> in_memory (SameStructure v fresh)"
proof -
  show "invariant (SameStructure v fresh)" if "invariant v"
    using that by (intro invariant_tight) (simp_all add: SameStructure_def invariant_def)
  show "in_memory (SameStructure v fresh)" if "in_memory v"
    using that unsigned_less [of "last (varStarts v)", where ?'a = nat]
    by (simp add: SameStructure_def in_memory_def)
qed

lemma reserve_effect:
  assumes "length (values' v) < 2 ^ 64"
  shows "values' (reserve nVars totalDims fresh v)
           = values' v @ map fresh [length (values' v) ..< unat (max totalDims (vec_size (values' v)))]"
    and "length (values' (reserve nVars totalDims fresh v)) = unat (max totalDims (vec_size (values' v)))"
    and "varStarts (reserve nVars totalDims fresh v) = varStarts v"
    and "dimCapacity (reserve nVars totalDims fresh v) = max (dimCapacity v) totalDims"
proof -
  define m where "m = max totalDims (vec_size (values' v))"
  have "vec_size (values' v) \<le> m"
    by (simp add: m_def)
  then have "unat (vec_size (values' v)) \<le> unat m"
    by (simp add: word_le_nat_alt)
  then have le: "length (values' v) \<le> unat m"
    using assms by (simp add: unat_vec_size)
  show "values' (reserve nVars totalDims fresh v)
      = values' v @ map fresh [length (values' v) ..< unat (max totalDims (vec_size (values' v)))]"
    using resize_preserve_grow(1) [OF le] by (simp add: reserve_def m_def)
  show len: "length (values' (reserve nVars totalDims fresh v))
      = unat (max totalDims (vec_size (values' v)))"
    using resize_preserve_grow(2) [OF le] by (simp add: reserve_def m_def)
  show "varStarts (reserve nVars totalDims fresh v) = varStarts v"
    by (simp add: reserve_def)
  show "dimCapacity (reserve nVars totalDims fresh v) = max (dimCapacity v) totalDims"
    by (simp add: dimCapacity_def vec_size_def len) (simp add: vec_size_def max.commute)
qed

lemma reserve_ok:
  assumes "in_memory v"
  shows "invariant v \<Longrightarrow> invariant (reserve nVars totalDims fresh v)"
    and "in_memory (reserve nVars totalDims fresh v)"
proof -
  have vl: "length (values' v) < 2 ^ 64"
    using assms by (simp add: in_memory_def)
  note e = reserve_effect [OF vl, of nVars totalDims fresh]
  show "invariant (reserve nVars totalDims fresh v)" if "invariant v"
  proof -
    have "dim v \<le> dimCapacity v" using that by (simp add: invariant_def)
    then have "dim v \<le> max (dimCapacity v) totalDims" by (simp add: le_max_iff_disj)
    then show ?thesis
      using that e(3,4) by (simp add: invariant_def dim_def)
  qed
  show "in_memory (reserve nVars totalDims fresh v)"
    using assms e(2,3) unsigned_less [of "max totalDims (vec_size (values' v))", where ?'a = nat]
    by (simp add: in_memory_def)
qed

lemma unat_vec_size_le: "unat (vec_size e) \<le> length e"
  by (simp add: vec_size_def unat_of_nat)

lemma assign_range_length:
  assumes "assign_range data r e = Inr data'"
  shows "length data' = length data"
proof -
  let ?s = "unat (range_start r)" and ?z = "unat (range_size r)"
  have sz: "range_size r = vec_size e"
    and inb: "\<not> (range_size r \<noteq> 0 \<and> length data < ?s + ?z)"
    and d: "data' = take ?s data @ take ?z e @ drop (?s + ?z) data"
    using assms by (simp_all add: assign_range_def split: if_splits)
  have ze: "?z \<le> length e"
    unfolding sz by (rule unat_vec_size_le)
  show ?thesis
  proof (cases "range_size r = 0")
    case True
    then show ?thesis by (simp add: d)
  next
    case False
    then have "?s + ?z \<le> length data" using inb by simp
    then show ?thesis using ze by (simp add: d)
  qed
qed

lemma assign_block_ok:
  assumes "assign_block v j e = Inr u"
  shows "invariant v \<Longrightarrow> invariant u" and "in_memory v \<Longrightarrow> in_memory u"
proof -
  obtain r vals where "assign_range (values' v) r e = Inr vals" and u: "u = v\<lparr>values' := vals\<rparr>"
    using assms by (auto simp add: assign_block_def split: sum.splits)
  then have len: "length (values' u) = length (values' v)" and vs: "varStarts u = varStarts v"
    using assign_range_length by simp_all
  show "invariant u" if "invariant v"
    using vs len that by (rule invariant_cong)
  show "in_memory u" if "in_memory v"
    using that by (simp add: in_memory_def len vs)
qed

lemma makeZero_ok:
  "invariant v \<Longrightarrow> invariant (makeZero v)" "in_memory v \<Longrightarrow> in_memory (makeZero v)"
proof -
  have cap: "dimCapacity (makeZero v) = dimCapacity v"
    by (simp add: makeZero_def dimCapacity_def vec_size_def)
  show "invariant (makeZero v)" if "invariant v"
    using that cap by (simp add: invariant_def dim_def) (simp add: makeZero_def)
  show "in_memory (makeZero v)" if "in_memory v"
    using that by (simp add: in_memory_def makeZero_def unat_vec_size)
qed

lemma scal_ok:
  "invariant v \<Longrightarrow> invariant (scal alpha v)" "in_memory v \<Longrightarrow> in_memory (scal alpha v)"
  by (simp_all add: invariant_def in_memory_def scal_def vector_scal_def dim_def dimCapacity_def
      vec_size_def)

lemma axpy_ok:
  assumes "axpy alpha x y = Inr u"
  shows "invariant y \<Longrightarrow> invariant u" and "in_memory y \<Longrightarrow> in_memory u"
proof -
  have eq: "length (values' x) = length (values' y)"
    and u: "u = y\<lparr>values' := map2 (\<lambda>xi yi. yi + alpha * xi) (values' x) (values' y)\<rparr>"
    using assms by (auto simp add: axpy_def vector_axpy_def split: if_splits)
  have len: "length (values' u) = length (values' y)" and vs: "varStarts u = varStarts y"
    using eq by (simp_all add: u)
  show "invariant u" if "invariant y"
    using vs len that by (rule invariant_cong)
  show "in_memory u" if "in_memory y"
    using that by (simp add: in_memory_def len vs)
qed

lemma read_prefix_length:
  assumes "read_range data \<lparr>range_start = 0, range_size = n\<rparr> = Inr a"
  shows "length a = unat n"
  using assms by (cases "n = 0") (auto simp add: read_range_def split: if_splits)

lemma operator_plus_ok:
  assumes "operator_plus v c = Inr u"
  shows "invariant v \<Longrightarrow> invariant u" and "in_memory v \<Longrightarrow> in_memory u"
proof -
  obtain a b where a: "read_range (values' v) \<lparr>range_start = 0, range_size = last (varStarts v)\<rparr> = Inr a"
    and b: "read_range (values' c) \<lparr>range_start = 0, range_size = last (varStarts c)\<rparr> = Inr b"
    and same: "varStarts v = varStarts c" and eq: "length a = length b"
    and u: "u = \<lparr>values' = map2 (+) a b, varStarts = varStarts v\<rparr>"
    using assms
    by (auto simp add: operator_plus_def mk_range_def split: if_splits sum.splits)
  have len: "length (values' u) = unat (last (varStarts u))"
    using read_prefix_length [OF a] eq by (simp add: u)
  show "invariant u" if "invariant v"
    using that len by (intro invariant_tight) (simp_all add: u invariant_def)
  show "in_memory u" if "in_memory v"
    using that len unsigned_less [of "last (varStarts u)", where ?'a = nat]
    by (simp add: in_memory_def) (simp add: u)
qed

lemma sorted_le_last: "sorted xs \<Longrightarrow> x \<in> set xs \<Longrightarrow> x \<le> last xs"
  by (induction xs) auto

lemma push_back_ok:
  assumes mem: "in_memory v" and inv: "invariant v"
    and ok: "fst (push_back_preallocated b v) = Inr i"
  shows "invariant (snd (push_back_preallocated b v))"
    and "Suc (length (varStarts v)) < 2 ^ 64 \<Longrightarrow> in_memory (snd (push_back_preallocated b v))"
proof -
  let ?nb = "dim v + vec_size b"
  define v1 where "v1 = v\<lparr>varStarts := varStarts v @ [?nb]\<rparr>"
  have idx: "operator_index v1 (vec_size (varStarts v) - 1) = mk_range (dim v) ?nb"
    using push_back_range [OF mem, of ?nb] by (simp add: v1_def dim_def)
  obtain v2 where ab: "assign_block v1 (vec_size (varStarts v) - 1) b = Inr v2"
    and res: "snd (push_back_preallocated b v) = v2"
    using ok by (auto simp add: push_back_preallocated_def Let_def v1_def dim_def split: sum.splits)
  have le: "dim v \<le> ?nb"
  proof (rule ccontr)
    assume "\<not> dim v \<le> ?nb"
    then have "assign_block v1 (vec_size (varStarts v) - 1) b = Inl (bad_index, v1)"
      by (simp add: assign_block_def idx mk_range_def)
    then show False using ab by simp
  qed
  then have idx': "operator_index v1 (vec_size (varStarts v) - 1)
      = Inr \<lparr>range_start = dim v, range_size = vec_size b\<rparr>"
    by (simp add: idx mk_range_def)
  have vals1: "values' v1 = values' v"
    by (simp add: v1_def)
  obtain vals where asg: "assign_range (values' v) \<lparr>range_start = dim v, range_size = vec_size b\<rparr> b = Inr vals"
    and v2: "v2 = v1\<lparr>values' := vals\<rparr>"
    using ab unfolding assign_block_def idx' vals1 by (auto split: sum.splits)
  have len: "length vals = length (values' v)"
    using asg by (rule assign_range_length)
  have vs2: "varStarts v2 = varStarts v @ [?nb]"
    by (simp add: v2 v1_def)
  have ne: "varStarts v \<noteq> []" and vl: "length (values' v) < 2 ^ 64"
    using mem by (simp_all add: in_memory_def)
  have first: "varStarts v2 ! 0 = 0"
    using inv ne by (simp add: vs2 nth_append invariant_def)
  have "\<forall>x\<in>set (varStarts v). x \<le> ?nb"
  proof
    fix x assume "x \<in> set (varStarts v)"
    then have "x \<le> dim v"
      using inv by (simp add: invariant_def dim_def sorted_le_last)
    then show "x \<le> ?nb" using le by simp
  qed
  then have srt: "sorted (varStarts v2)"
    using inv by (simp add: vs2 sorted_append invariant_def)
  have cap: "?nb \<le> dimCapacity v"
  proof (cases "vec_size b = 0")
    case True
    then show ?thesis using inv by (simp add: invariant_def)
  next
    case False
    then have "unat (dim v) + unat (vec_size b) \<le> length (values' v)"
      using asg by (simp add: assign_range_def split: if_splits)
    moreover have "unat ?nb = unat (dim v) + unat (vec_size b)"
      using le by (simp add: unat_plus_simple)
    ultimately have "unat ?nb \<le> length (values' v)" by linarith
    then show ?thesis
      using vl by (simp add: word_le_nat_alt dimCapacity_def unat_vec_size)
  qed
  have d2: "dim v2 = ?nb"
    by (simp add: dim_def vs2)
  have c2: "dimCapacity v2 = dimCapacity v"
    by (simp add: dimCapacity_def vec_size_def v2 len)
  have "dim v2 \<le> dimCapacity v2"
    using cap by (simp add: d2 c2)
  then show "invariant (snd (push_back_preallocated b v))"
    using first srt by (simp add: res invariant_def)
  show "in_memory (snd (push_back_preallocated b v))" if "Suc (length (varStarts v)) < 2 ^ 64"
    using that vl by (simp add: res in_memory_def vs2) (simp add: v2 len)
qed

lemma four_blocks_built: "VectorValues_dims_values [1, 1, 1, 1] [10, 20, 30, 40] = Inr four_blocks"
  apply (simp add: VectorValues_dims_values_def four_blocks_def store_def vec_size_def)
  apply (simp add: eval_nat_numeral)
  done

section \<open>Iterator operators\<close>

text \<open>
  C10. The postfix operators \<open>it++\<close> and \<open>it--\<close> throw a runtime error whatever the
  iterator is and leave it where it was; the prefix operators \<open>++it\<close> and \<open>--it\<close> move
  the position by one (modulo \<open>2^64\<close>), so they always change it.
\<close>

theorem postfix_operators_throw:
  "fst (post_increment it) = Inl (runtime_error ''Use prefix ++ operator'') \<and>
   snd (post_increment it) = it \<and>
   fst (post_decrement it) = Inl (runtime_error ''Use prefix -- operator'') \<and>
   snd (post_decrement it) = it \<and>
   pre_increment it = it\<lparr>curVariable := curVariable it + 1\<rparr> \<and>
   pre_decrement it = it\<lparr>curVariable := curVariable it - 1\<rparr> \<and>
   curVariable (pre_increment it) \<noteq> curVariable it \<and>
   curVariable (pre_decrement it) \<noteq> curVariable it"
  by (simp add: post_increment_def post_decrement_def pre_increment_def pre_decrement_def)

text \<open>
  C6. The claim asks that \<open>it -= k\<close> puts an iterator at index \<open>i\<close> on index \<open>i - k\<close>
  and that \<open>+= k\<close> followed by \<open>-= k\<close> returns to \<open>i\<close>. The source's \<open>operator-=\<close> adds
  the step: on \<open>four_blocks\<close>, \<open>it -= 1\<close> at index 2 leaves index 3 (not 1), and from
  index 1, \<open>+= 1\<close> then \<open>-= 1\<close> ends at index 3, where dereferencing gives the view of
  block 3, not the view \<open>operator[](1)\<close> gives.
\<close>

theorem minus_assign_adds_the_step:
  "VectorValues_dims_values [1, 1, 1, 1] [10, 20, 30, 40] = Inr four_blocks \<and>
   curVariable (minus_assign \<lparr>config = four_blocks, curVariable = 2\<rparr> 1) = 3 \<and>
   curVariable (minus_assign (plus_assign \<lparr>config = four_blocks, curVariable = 1\<rparr> 1) 1) = 3 \<and>
   dereference (minus_assign (plus_assign \<lparr>config = four_blocks, curVariable = 1\<rparr> 1) 1)
     = Inr \<lparr>range_start = 3, range_size = 1\<rparr> \<and>
   operator_index four_blocks 1 = Inr \<lparr>range_start = 1, range_size = 1\<rparr>"
proof -
  have built: "VectorValues_dims_values [1, 1, 1, 1] [10, 20, 30, 40] = Inr four_blocks"
    apply (simp add: VectorValues_dims_values_def four_blocks_def store_def vec_size_def)
    apply (simp add: eval_nat_numeral)
    done
  have moves: "curVariable (minus_assign \<lparr>config = four_blocks, curVariable = 2\<rparr> 1) = 3"
    "curVariable (minus_assign (plus_assign \<lparr>config = four_blocks, curVariable = 1\<rparr> 1) 1) = 3"
    by (simp_all add: minus_assign_def plus_assign_def)
  have views: "dereference (minus_assign (plus_assign \<lparr>config = four_blocks, curVariable = 1\<rparr> 1) 1)
     = Inr \<lparr>range_start = 3, range_size = 1\<rparr>"
    "operator_index four_blocks 1 = Inr \<lparr>range_start = 1, range_size = 1\<rparr>"
    by (simp_all add: minus_assign_def plus_assign_def dereference_def operator_index_def
        four_blocks_def size_VV_def vec_size_def mk_range_def)
  show ?thesis
    using built moves views by simp
qed

section \<open>Construction from dimensions\<close>

text \<open>
  C1. For a valid list of dimensions \<open>D\<close> the constructor returns a container \<open>v\<close>
  with \<open>size() = |D|\<close>, \<open>dim() = sum(D)\<close>, the boundary list equal to the running sum
  of \<open>D\<close> prefixed with 0, and every block \<open>i < |D|\<close> readable through \<open>operator[]\<close>
  with length \<open>D[i]\<close>.
\<close>

theorem dims_constructor:
  assumes "valid_dims D"
  shows "\<exists>v. VectorValues_dims D fresh = Inr v \<and>
           size_VV v = vec_size D \<and> unat (size_VV v) = length D \<and>
           unat (dim v) = sum_list (map unat D) \<and>
           varStarts v = running_sum D \<and>
           (\<forall>i<length D. \<exists>blk. read_block v (of_nat i) = Inr blk \<and> length blk = unat (D ! i))"
proof -
  define v where "v = \<lparr>values' = resize [] (sum_list D) False fresh, varStarts = running_sum D\<rparr>"
  have len: "Suc (length D) < 2 ^ 64" and tot: "sum_list (map unat D) < 2 ^ 64"
    using assms by (simp_all add: valid_dims_def)
  have res: "VectorValues_dims D fresh = Inr v"
    unfolding v_def using len by (rule dims_result)
  have vs: "varStarts v = running_sum D" and vl: "length (values' v) = unat (sum_list D)"
    by (simp_all add: v_def)
  have mem: "in_memory v" and inv: "invariant v"
    using running_sum_in_memory_invariant [OF assms vs vl] by simp_all
  have sz_nat: "unat (size_VV v) = length D"
    using unat_size_VV [OF mem] by (simp add: vs)
  have sz: "size_VV v = vec_size D"
    by (simp add: size_VV_def vs vec_size_def)
  have dm: "unat (dim v) = sum_list (map unat D)"
    using tot by (simp add: dim_def vs last_running_sum unat_sum_list)
  have blocks: "\<exists>blk. read_block v (of_nat i) = Inr blk \<and> length blk = unat (D ! i)"
    if i: "i < length D" for i
  proof -
    have ui: "unat (of_nat i :: 64 word) = i"
      using i len by (simp add: unat_of_nat)
    have lt: "(of_nat i :: 64 word) < size_VV v"
      using i by (simp add: word_less_nat_alt ui sz_nat)
    have lo: "unat (varStarts v ! i) = sum_list (take i (map unat D))"
      using i tot by (simp add: vs nth_running_sum unat_prefix_sum)
    have hi: "unat (varStarts v ! Suc i) = sum_list (take (Suc i) (map unat D))"
      using i tot by (simp add: vs nth_running_sum unat_prefix_sum del: take_Suc_Cons)
    have step: "sum_list (take (Suc i) (map unat D)) = sum_list (take i (map unat D)) + unat (D ! i)"
      using i by (simp add: take_Suc_conv_app_nth)
    have top: "unat (varStarts v ! Suc i) \<le> length (values' v)"
      using read_block_ok(4) [OF mem inv lt] by (simp add: ui)
    have "read_block v (of_nat i) =
        Inr (take (unat (varStarts v ! Suc i) - unat (varStarts v ! i))
               (drop (unat (varStarts v ! i)) (values' v)))"
      using read_block_ok(1) [OF mem inv lt] by (simp add: ui)
    moreover have "length (take (unat (varStarts v ! Suc i) - unat (varStarts v ! i))
               (drop (unat (varStarts v ! i)) (values' v))) = unat (D ! i)"
      using top by (simp add: lo hi step)
    ultimately show ?thesis by blast
  qed
  show ?thesis
    using res sz sz_nat dm vs blocks by blast
qed

theorem dims_constructor_witness:
  "valid_dims [2, 3] \<and>
   (\<exists>v. VectorValues_dims [2, 3] (\<lambda>k. 0) = Inr v \<and> size_VV v = 2 \<and> unat (dim v) = 5 \<and>
        varStarts v = [0, 2, 5] \<and>
        (\<exists>blk. read_block v 1 = Inr blk \<and> length blk = 3))"
proof -
  have valid: "valid_dims [2, 3]"
    by (simp add: valid_dims_def)
  have rs: "running_sum [2, 3] = [0, 2, 5]"
    by (simp add: running_sum_scan)
  obtain v where v: "VectorValues_dims [2, 3] (\<lambda>k. 0) = Inr v"
      "size_VV v = vec_size [2 :: size_t, 3]" "unat (dim v) = sum_list (map unat [2 :: size_t, 3])"
      "varStarts v = running_sum [2, 3]"
      "\<forall>i<length [2 :: size_t, 3]. \<exists>blk. read_block v (of_nat i) = Inr blk \<and> length blk = unat ([2 :: size_t, 3] ! i)"
    using dims_constructor [OF valid, of "\<lambda>k. 0"] by blast
  have "\<exists>blk. read_block v 1 = Inr blk \<and> length blk = 3"
    using v(5) [THEN spec, of "Suc 0"] by simp
  then show ?thesis
    using valid v(1-4) rs by (simp add: vec_size_def)
qed

text \<open>
  C9. For a count \<open>nVars\<close> whose boundary list fits (\<open>nVars + 1\<close> does not wrap) and a
  uniform dimension, the constructor \<open>VectorValues(nVars, varDim)\<close> returns, and what it
  returns has the same \<open>size()\<close>, the same boundary list and the same allocated storage
  length as the container the dimension-sequence constructor builds from \<open>nVars\<close>
  repetitions of \<open>varDim\<close>. The contents of the two uninitialised storages are
  independent parameters.
\<close>

theorem uniform_constructor_refines_dims:
  assumes "nVars + 1 \<noteq> 0"
  shows "\<exists>u w. VectorValues_uniform nVars varDim fresh1 = Some (Inr u) \<and>
           VectorValues_dims (replicate (unat nVars) varDim) fresh2 = Inr w \<and>
           size_VV u = size_VV w \<and> size_VV u = nVars \<and>
           varStarts u = varStarts w \<and>
           length (values' u) = length (values' w) \<and> dimCapacity u = dimCapacity w"
proof -
  have len: "Suc (unat nVars) < 2 ^ 64"
    using assms by (rule no_wrap_plus_one)
  have u: "VectorValues_uniform nVars varDim fresh1 =
     Some (Inr \<lparr>values' = resize [] (sum_list (replicate (unat nVars) varDim)) False fresh1,
                varStarts = running_sum (replicate (unat nVars) varDim)\<rparr>)"
    using len by (rule uniform_result)
  have w: "VectorValues_dims (replicate (unat nVars) varDim) fresh2 =
     Inr \<lparr>values' = resize [] (sum_list (replicate (unat nVars) varDim)) False fresh2,
           varStarts = running_sum (replicate (unat nVars) varDim)\<rparr>"
    using len by (intro dims_result) simp
  show ?thesis
    unfolding u w by (simp add: size_VV_def dimCapacity_def vec_size_def)
qed

theorem uniform_constructor_refines_dims_witness:
  "(3 :: Index) + 1 \<noteq> 0 \<and>
   (\<exists>u w. VectorValues_uniform 3 2 (\<lambda>k. 0) = Some (Inr u) \<and>
      VectorValues_dims [2, 2, 2] (\<lambda>k. 1) = Inr w \<and>
      size_VV u = 3 \<and> size_VV w = 3 \<and> varStarts u = varStarts w \<and>
      length (values' u) = length (values' w))"
proof -
  have h: "(3 :: Index) + 1 \<noteq> 0" by simp
  have "replicate 3 (2 :: size_t) = [2, 2, 2]"
    by (simp add: numeral_3_eq_3)
  then have r: "replicate (unat (3 :: Index)) (2 :: size_t) = [2, 2, 2]"
    by simp
  show ?thesis
    using h uniform_constructor_refines_dims [OF h, of 2 "\<lambda>k. 0" "\<lambda>k. 1"]
    unfolding r by auto
qed

section \<open>Reserve\<close>

text \<open>
  C7. For a container whose storage exists in memory and any two hints, \<open>reserve\<close>
  leaves the capacity at the maximum of the old capacity and \<open>totalDims\<close>, and changes
  neither \<open>size()\<close>, \<open>dim()\<close>, the boundary list nor any old storage entry: the old
  storage is a prefix of the new one, so every entry of the used range \<open>[0, dim())\<close> is
  what it was.
\<close>

theorem reserve_frame:
  assumes "length (values' v) < 2 ^ 64"
  shows "dimCapacity (reserve nVars totalDims fresh v) = max (dimCapacity v) totalDims \<and>
         size_VV (reserve nVars totalDims fresh v) = size_VV v \<and>
         dim (reserve nVars totalDims fresh v) = dim v \<and>
         varStarts (reserve nVars totalDims fresh v) = varStarts v \<and>
         take (length (values' v)) (values' (reserve nVars totalDims fresh v)) = values' v \<and>
         (\<forall>k. k < unat (dim v) \<and> k < length (values' v) \<longrightarrow>
              values' (reserve nVars totalDims fresh v) ! k = values' v ! k)"
  using reserve_effect [OF assms, of nVars totalDims fresh]
  by (simp add: size_VV_def dim_def nth_append)

theorem reserve_frame_witness:
  "length (values' four_blocks) < 2 ^ 64 \<and>
   dimCapacity (reserve 6 10 (\<lambda>k. 7) four_blocks) = 10 \<and>
   size_VV (reserve 6 10 (\<lambda>k. 7) four_blocks) = 4 \<and>
   dim (reserve 6 10 (\<lambda>k. 7) four_blocks) = 4 \<and>
   varStarts (reserve 6 10 (\<lambda>k. 7) four_blocks) = [0, 1, 2, 3, 4] \<and>
   take (length (values' four_blocks)) (values' (reserve 6 10 (\<lambda>k. 7) four_blocks))
     = [10, 20, 30, 40] \<and>
   dimCapacity (reserve 6 2 (\<lambda>k. 7) four_blocks) = 4"
proof -
  have h: "length (values' four_blocks) < 2 ^ 64"
    by (simp add: four_blocks_def)
  have c: "dimCapacity four_blocks = 4" "size_VV four_blocks = 4" "dim four_blocks = 4"
    "varStarts four_blocks = [0, 1, 2, 3, 4]" "values' four_blocks = [10, 20, 30, 40]"
    by (simp_all add: four_blocks_def dimCapacity_def size_VV_def dim_def vec_size_def)
  have "max (4 :: size_t) 10 = 10" "max (4 :: size_t) 2 = 4"
    by simp_all
  then show ?thesis
    using h reserve_frame [OF h, of 6 10 "\<lambda>k. 7"] reserve_frame [OF h, of 6 2 "\<lambda>k. 7"]
    unfolding c by simp
qed

section \<open>Equality\<close>

text \<open>
  C8, as amended. \<open>equals(X, X, tol)\<close> is true for every tolerance \<open>tol \<ge> 0\<close> and every
  container \<open>X\<close> whose boundary list is non-decreasing and whose \<open>dim()\<close> is at most its
  \<open>dimCapacity()\<close>; \<open>equals(X, Y, tol)\<close> is false for every tolerance when
  \<open>X.size() \<noteq> Y.size()\<close>.
\<close>

theorem equals_reflexive_and_size:
  "(in_memory X \<and> sorted (varStarts X) \<and> dim X \<le> dimCapacity X \<and> 0 \<le> tol
      \<longrightarrow> equals X X tol = Inr True) \<and>
   (size_VV X \<noteq> size_VV Y \<longrightarrow> equals X Y tol' = Inr False)"
  by (simp add: equals_def equals_loop_refl del: equals_loop.simps)

theorem equals_reflexive_and_size_witness:
  "in_memory four_blocks \<and> sorted (varStarts four_blocks) \<and>
   dim four_blocks \<le> dimCapacity four_blocks \<and> (0 :: real) \<le> 0 \<and>
   equals four_blocks four_blocks 0 = Inr True \<and>
   size_VV four_blocks \<noteq> size_VV VectorValues_default \<and>
   equals four_blocks VectorValues_default 1 = Inr False"
proof -
  have ne: "size_VV four_blocks \<noteq> size_VV VectorValues_default"
    by (simp add: size_VV_def four_blocks_def VectorValues_default_def vec_size_def)
  have ok: "sorted (varStarts four_blocks)" "dim four_blocks \<le> dimCapacity four_blocks"
    using four_blocks_ok(2) by (simp_all add: invariant_def)
  show ?thesis
    using four_blocks_ok(1) ok ne
      equals_reflexive_and_size [of four_blocks 0 VectorValues_default 1]
    by simp
qed

text \<open>
  C8, as stated, is about every container. On \<open>overfull_blocks\<close>, which a failed append
  leaves of \<open>four_blocks\<close>, and on \<open>wrapped_blocks\<close>, which the constructor returns without
  any error, \<open>equals(X, X, 0)\<close> does not return true: reading a block runs past the end of
  the storage, and the range check raises \<open>bad_index\<close>.
\<close>

theorem equals_not_reflexive_on_broken_container:
  "push_back_preallocated [50] four_blocks = (Inl bad_index, overfull_blocks) \<and>
   equals overfull_blocks overfull_blocks 0 = Inl bad_index \<and>
   VectorValues_dims [18446744073709551615, 2] (\<lambda>k. 0) = Inr wrapped_blocks \<and>
   equals wrapped_blocks wrapped_blocks 0 = Inl bad_index"
proof -
  have idx: "operator_index \<lparr>values' = [10, 20, 30, 40], varStarts = [0, 1, 2, 3, 4, 5]\<rparr> 4
      = Inr \<lparr>range_start = 4, range_size = 1\<rparr>"
    by (simp add: operator_index_def size_VV_def vec_size_def mk_range_def)
  have pb: "push_back_preallocated [50] four_blocks = (Inl bad_index, overfull_blocks)"
    by (simp add: push_back_preallocated_def four_blocks_def overfull_blocks_def Let_def
        assign_block_def idx assign_range_def vec_size_def)
  have sz: "size_VV overfull_blocks = 5"
    by (simp add: size_VV_def overfull_blocks_def vec_size_def)
  have blocks: "read_block overfull_blocks 0 = Inr [10]" "read_block overfull_blocks 1 = Inr [20]"
    "read_block overfull_blocks 2 = Inr [30]" "read_block overfull_blocks 3 = Inr [40]"
    "read_block overfull_blocks 4 = Inl bad_index"
    by (simp_all add: read_block_def operator_index_def size_VV_def overfull_blocks_def
        vec_size_def mk_range_def read_range_def)
  have "equals_loop overfull_blocks overfull_blocks 0 4 = Inl bad_index"
    by (subst equals_loop.simps) (simp add: sz blocks)
  then have "equals_loop overfull_blocks overfull_blocks 0 3 = Inl bad_index"
    by (subst equals_loop.simps) (simp add: sz blocks)
  then have "equals_loop overfull_blocks overfull_blocks 0 2 = Inl bad_index"
    by (subst equals_loop.simps) (simp add: sz blocks)
  then have "equals_loop overfull_blocks overfull_blocks 0 1 = Inl bad_index"
    by (subst equals_loop.simps) (simp add: sz blocks)
  then have "equals_loop overfull_blocks overfull_blocks 0 0 = Inl bad_index"
    by (subst equals_loop.simps) (simp add: sz blocks)
  then have over: "equals overfull_blocks overfull_blocks 0 = Inl bad_index"
    by (simp add: equals_def)
  have "Suc (length [18446744073709551615, 2 :: size_t]) < 2 ^ 64"
    by simp
  then have "VectorValues_dims [18446744073709551615, 2] (\<lambda>k. 0)
      = Inr \<lparr>values' = resize [] (sum_list [18446744073709551615, 2]) False (\<lambda>k. 0),
             varStarts = running_sum [18446744073709551615, 2]\<rparr>"
    by (rule dims_result)
  moreover have "running_sum [18446744073709551615, 2 :: size_t] = [0, 18446744073709551615, 1]"
    by (simp add: running_sum_scan)
  moreover have "resize [] (sum_list [18446744073709551615, 2 :: size_t]) False (\<lambda>k. 0) = [0]"
    by (simp add: resize_def)
  ultimately have built: "VectorValues_dims [18446744073709551615, 2] (\<lambda>k. 0) = Inr wrapped_blocks"
    by (simp add: wrapped_blocks_def)
  have "size_VV wrapped_blocks = 2"
    by (simp add: size_VV_def wrapped_blocks_def vec_size_def)
  moreover have "read_block wrapped_blocks 0 = Inl bad_index"
    by (simp add: read_block_def operator_index_def size_VV_def wrapped_blocks_def
        vec_size_def mk_range_def read_range_def)
  ultimately have "equals_loop wrapped_blocks wrapped_blocks 0 0 = Inl bad_index"
    by (subst equals_loop.simps) simp
  then have wrapped: "equals wrapped_blocks wrapped_blocks 0 = Inl bad_index"
    by (simp add: equals_def)
  show ?thesis
    using pb over built wrapped by simp
qed

section \<open>Appending a block\<close>

text \<open>
  C2, as amended. For a container \<open>v\<close> with \<open>n = v.size()\<close> and a block that fits the
  reserved capacity (\<open>dim() + |blockValues| \<le> dimCapacity()\<close>),
  \<open>push_back_preallocated\<close> returns \<open>n\<close>; afterwards \<open>size()\<close> is \<open>n + 1\<close>, \<open>dim()\<close>
  has grown by \<open>|blockValues|\<close> and block \<open>n\<close> reads as \<open>blockValues\<close>; and when the
  boundary list of \<open>v\<close> is non-decreasing, every block \<open>i < n\<close> reads as before. The
  first index is 0: the default container has size 0.
\<close>

theorem push_back_preallocated_appends:
  assumes mem: "in_memory v"
    and fits: "unat (dim v) + length blockValues \<le> unat (dimCapacity v)"
  shows "fst (push_back_preallocated blockValues v) = Inr (size_VV v) \<and>
         size_VV (snd (push_back_preallocated blockValues v)) = size_VV v + 1 \<and>
         dim (snd (push_back_preallocated blockValues v)) = dim v + vec_size blockValues \<and>
         unat (dim (snd (push_back_preallocated blockValues v))) = unat (dim v) + length blockValues \<and>
         read_block (snd (push_back_preallocated blockValues v)) (size_VV v) = Inr blockValues \<and>
         (sorted (varStarts v) \<longrightarrow>
            (\<forall>i. i < size_VV v \<longrightarrow>
               read_block (snd (push_back_preallocated blockValues v)) i = read_block v i)) \<and>
         size_VV VectorValues_default = 0"
proof -
  let ?b = blockValues
  let ?d = "unat (dim v)"
  define v1 where "v1 = v\<lparr>varStarts := varStarts v @ [dim v + vec_size ?b]\<rparr>"
  define v2 where "v2 = \<lparr>values' = take ?d (values' v) @ ?b @ drop (?d + length ?b) (values' v),
       varStarts = varStarts v @ [dim v + vec_size ?b]\<rparr>"
  have pb: "push_back_preallocated ?b v = (Inr (size_VV v), v2)"
    and sum: "unat (dim v + vec_size ?b) = ?d + length ?b"
    and fits': "?d + length ?b \<le> length (values' v)"
    unfolding v2_def using push_back_success [OF mem fits] by simp_all
  have vl: "length (values' v) < 2 ^ 64" and sl: "length (varStarts v) < 2 ^ 64"
    using mem by (simp_all add: in_memory_def)
  have ub: "unat (vec_size ?b) = length ?b"
    using fits' vl by (intro unat_vec_size) linarith
  have len2: "length (values' v2) = length (values' v)"
    using fits' by (simp add: v2_def)
  have sz: "size_VV v2 = size_VV v + 1"
    by (simp add: v2_def size_VV_def vec_size_def)
  have dm: "dim v2 = dim v + vec_size ?b"
    by (simp add: v2_def dim_def)
  have idx_new: "operator_index v2 (size_VV v) = mk_range (dim v) (dim v + vec_size ?b)"
    using push_back_range [OF mem, of "dim v + vec_size ?b"]
      operator_index_cong [of v2 v1 "size_VV v"]
    by (simp add: v1_def v2_def size_VV_def dim_def)
  have "dim v \<le> dim v + vec_size ?b"
    by (simp add: word_le_nat_alt sum)
  then have rng: "operator_index v2 (size_VV v)
      = Inr \<lparr>range_start = dim v, range_size = vec_size ?b\<rparr>"
    by (simp add: idx_new mk_range_def)
  have vals2: "values' v2 = take ?d (values' v) @ ?b @ drop (?d + length ?b) (values' v)"
    by (simp add: v2_def)
  have new_block: "read_block v2 (size_VV v) = Inr ?b"
    using fits' by (simp add: read_block_def rng read_range_def ub vals2)
  have old_blocks: "read_block v2 i = read_block v i"
    if srt: "sorted (varStarts v)" and lt: "i < size_VV v" for i
  proof -
    let ?lo = "unat (varStarts v ! unat i)" and ?hi = "unat (varStarts v ! Suc (unat i))"
    have "unat (dim v) \<le> unat (dimCapacity v)"
      using fits by linarith
    then have cap: "dim v \<le> dimCapacity v"
      by (simp add: word_le_nat_alt)
    note rb = read_block_sorted [OF mem srt cap lt]
    have suc: "unat (i + 1) = Suc (unat i)"
      using rb(2) sl by (intro unat_plus_one) linarith
    have "unat (size_VV v + 1) = Suc (unat (size_VV v))"
      using unat_size_VV [OF mem] sl by (intro unat_plus_one) linarith
    then have lt2: "i < size_VV v2"
      using lt by (simp add: sz word_less_nat_alt)
    have le: "varStarts v ! unat i \<le> varStarts v ! Suc (unat i)"
      using rb(3) by (simp add: word_le_nat_alt)
    have diff: "unat (varStarts v ! Suc (unat i) - varStarts v ! unat i) = ?hi - ?lo"
      using le by (rule unat_sub)
    have idx: "operator_index v2 i = Inr \<lparr>range_start = varStarts v ! unat i,
        range_size = varStarts v ! Suc (unat i) - varStarts v ! unat i\<rparr>"
      using lt2 rb(2) le by (simp add: operator_index_def mk_range_def suc v2_def nth_append)
    have "read_block v2 i = Inr (take (?hi - ?lo) (drop ?lo (values' v2)))"
      using rb(3,4) by (simp add: read_block_def idx read_range_def diff len2)
    also have "take (?hi - ?lo) (drop ?lo (values' v2)) = take (?hi - ?lo) (drop ?lo (values' v))"
      unfolding vals2
    proof (rule slice_below_prefix)
      show "?lo \<le> ?hi" by (rule rb(3))
      show "?hi \<le> ?d" by (rule rb(5))
      show "?d \<le> length (values' v)" using fits' by linarith
    qed
    finally show ?thesis
      using rb(1) by simp
  qed
  have "size_VV VectorValues_default = 0"
    by (simp add: size_VV_def VectorValues_default_def vec_size_def)
  then show ?thesis
    using sz dm sum new_block old_blocks by (simp add: pb)
qed

theorem push_back_preallocated_appends_witness:
  "in_memory reserved_blocks \<and> sorted (varStarts reserved_blocks) \<and>
   unat (dim reserved_blocks) + length [50, 60 :: real] \<le> unat (dimCapacity reserved_blocks) \<and>
   fst (push_back_preallocated [50, 60] reserved_blocks) = Inr 4 \<and>
   size_VV (snd (push_back_preallocated [50, 60] reserved_blocks)) = 5 \<and>
   dim (snd (push_back_preallocated [50, 60] reserved_blocks)) = 6 \<and>
   read_block (snd (push_back_preallocated [50, 60] reserved_blocks)) 4 = Inr [50, 60] \<and>
   read_block (snd (push_back_preallocated [50, 60] reserved_blocks)) 1 = Inr [20]"
proof -
  have c: "size_VV reserved_blocks = 4" "dim reserved_blocks = 4" "dimCapacity reserved_blocks = 10"
    by (simp_all add: reserved_blocks_eq size_VV_def dim_def dimCapacity_def vec_size_def)
  have fits: "unat (dim reserved_blocks) + length [50, 60 :: real] \<le> unat (dimCapacity reserved_blocks)"
    by (simp add: c)
  have srt: "sorted (varStarts reserved_blocks)"
    using reserved_blocks_ok(2) by (simp add: invariant_def)
  have old: "read_block reserved_blocks 1 = Inr [20]"
    by (simp add: reserved_blocks_eq read_block_def operator_index_def size_VV_def vec_size_def
        mk_range_def read_range_def)
  note t = push_back_preallocated_appends [OF reserved_blocks_ok(1) fits]
  have "read_block (snd (push_back_preallocated [50, 60] reserved_blocks)) 1 = Inr [20]"
    using t srt old by (simp add: c)
  then show ?thesis
    using reserved_blocks_ok(1) srt fits t by (simp add: c vec_size_def)
qed

text \<open>
  C2, as stated, is about every container with enough capacity. The constructor returns
  for the dimensions \<open>[3, 2^64 - 2]\<close> the boundaries \<open>[0, 3, 1]\<close> and one cell, without any
  error; after \<open>reserve(0, 3)\<close> the container is \<open>folded_blocks\<close>, with \<open>dim() = 1\<close> and
  \<open>dimCapacity() = 3\<close>. A block of two entries fits, the call returns the index 2, and it
  writes the cells 1 and 2, which belong to block 0: block 0 read \<open>[0, 0, 0]\<close> before and
  reads \<open>[0, 7, 8]\<close> after.
\<close>

theorem push_back_overwrites_block_of_folded_container:
  "VectorValues_dims [3, 18446744073709551614] (\<lambda>k. 0)
     = Inr \<lparr>values' = [0], varStarts = [0, 3, 1]\<rparr> \<and>
   reserve 0 3 (\<lambda>k. 0) \<lparr>values' = [0], varStarts = [0, 3, 1]\<rparr> = folded_blocks \<and>
   size_VV folded_blocks = 2 \<and>
   unat (dim folded_blocks) + length [7, 8 :: real] \<le> unat (dimCapacity folded_blocks) \<and>
   push_back_preallocated [7, 8] folded_blocks
     = (Inr 2, \<lparr>values' = [0, 7, 8], varStarts = [0, 3, 1, 3]\<rparr>) \<and>
   read_block folded_blocks 0 = Inr [0, 0, 0] \<and>
   read_block (snd (push_back_preallocated [7, 8] folded_blocks)) 0 = Inr [0, 7, 8]"
proof -
  have "Suc (length [3, 18446744073709551614 :: size_t]) < 2 ^ 64"
    by simp
  then have "VectorValues_dims [3, 18446744073709551614] (\<lambda>k. 0)
      = Inr \<lparr>values' = resize [] (sum_list [3, 18446744073709551614]) False (\<lambda>k. 0),
             varStarts = running_sum [3, 18446744073709551614]\<rparr>"
    by (rule dims_result)
  moreover have "running_sum [3, 18446744073709551614 :: size_t] = [0, 3, 1]"
    by (simp add: running_sum_scan)
  moreover have "resize [] (sum_list [3, 18446744073709551614 :: size_t]) False (\<lambda>k. 0) = [0]"
    by (simp add: resize_def)
  ultimately have built: "VectorValues_dims [3, 18446744073709551614] (\<lambda>k. 0)
     = Inr \<lparr>values' = [0], varStarts = [0, 3, 1]\<rparr>"
    by simp
  have "replicate 2 (0 :: real) = [0, 0]"
    by (simp add: numeral_2_eq_2)
  then have "map (\<lambda>k. 0 :: real) [length [0 :: real] ..< 3] = [0, 0]"
    by (simp add: map_replicate_const)
  then have res: "reserve 0 3 (\<lambda>k. 0) \<lparr>values' = [0], varStarts = [0, 3, 1]\<rparr> = folded_blocks"
    by (simp add: reserve_def resize_def folded_blocks_def vec_size_def)
  have c: "size_VV folded_blocks = 2" "dim folded_blocks = 1" "dimCapacity folded_blocks = 3"
    by (simp_all add: folded_blocks_def size_VV_def dim_def dimCapacity_def vec_size_def)
  have fits: "unat (dim folded_blocks) + length [7, 8 :: real] \<le> unat (dimCapacity folded_blocks)"
    by (simp add: c)
  have idx: "operator_index \<lparr>values' = [0, 0, 0], varStarts = [0, 3, 1, 3]\<rparr> 2
      = Inr \<lparr>range_start = 1, range_size = 2\<rparr>"
    by (simp add: operator_index_def size_VV_def vec_size_def mk_range_def)
  have pb: "push_back_preallocated [7, 8] folded_blocks
      = (Inr 2, \<lparr>values' = [0, 7, 8], varStarts = [0, 3, 1, 3]\<rparr>)"
    by (simp add: push_back_preallocated_def folded_blocks_def Let_def assign_block_def idx
        assign_range_def vec_size_def)
  have before: "read_block folded_blocks 0 = Inr [0, 0, 0]"
    by (simp add: read_block_def operator_index_def size_VV_def folded_blocks_def vec_size_def
        mk_range_def read_range_def)
  have after: "read_block \<lparr>values' = [0, 7, 8], varStarts = [0, 3, 1, 3]\<rparr> 0 = Inr [0, 7, 8]"
    by (simp add: read_block_def operator_index_def size_VV_def vec_size_def
        mk_range_def read_range_def)
  show ?thesis
    using built res c(1) fits before after by (simp add: pb)
qed




section \<open>Dot product\<close>

text \<open>
  C3. The claim asks that \<open>dot(A, B)\<close> is the inner product of the used ranges whatever
  the capacities and the entries beyond \<open>dim()\<close> are. The source passes the whole
  storages to the flat-vector kernel. Three containers hold the single block \<open>[3]\<close>, so
  every pair has equal \<open>dim()\<close> and the inner product of the used ranges is 9: with
  capacities 1 and 2 the call fails the kernel's size assertion, and with capacity 2 and
  the cell beyond \<open>dim()\<close> holding 1 on both sides the result is 10. The program reaches
  the cell beyond \<open>dim()\<close> holding 1 by \<open>axpy(1, two_blocks, slack_zero_block)\<close>, which the
  source accepts because the two storages have one size; in the model the same state is
  also what \<open>reserve\<close> and one append give when the new cell holds 1.
\<close>

theorem dot_reads_whole_storage:
  "VectorValues_dims_values [1] [3] = Inr exact_block \<and>
   snd (push_back_preallocated [3] (reserve 1 2 (\<lambda>k. 0) VectorValues_default)) = slack_zero_block \<and>
   snd (push_back_preallocated [3] (reserve 1 2 (\<lambda>k. 1) VectorValues_default)) = slack_one_block \<and>
   VectorValues_dims_values [1, 1] [0, 1] = Inr two_blocks \<and>
   axpy 1 two_blocks slack_zero_block = Inr slack_one_block \<and>
   dim exact_block = 1 \<and> dim slack_zero_block = 1 \<and> dim slack_one_block = 1 \<and>
   dot exact_block slack_zero_block = Inl assertion_failure \<and>
   used_range_dot exact_block slack_zero_block = 9 \<and>
   dot slack_one_block slack_one_block = Inr 10 \<and>
   used_range_dot slack_one_block slack_one_block = 9 \<and>
   dot slack_zero_block slack_one_block = Inr 9"
proof -
  have built: "VectorValues_dims_values [1] [3] = Inr exact_block"
    apply (simp add: VectorValues_dims_values_def exact_block_def store_def vec_size_def)
    apply (simp add: eval_nat_numeral)
    done
  have built2: "VectorValues_dims_values [1, 1] [0, 1] = Inr two_blocks"
    apply (simp add: VectorValues_dims_values_def two_blocks_def store_def vec_size_def)
    apply (simp add: eval_nat_numeral)
    done
  have added: "axpy 1 two_blocks slack_zero_block = Inr slack_one_block"
    by (simp add: axpy_def vector_axpy_def two_blocks_def slack_zero_block_def slack_one_block_def)
  have two: "replicate 2 c = [c, c]" for c :: real
    by (simp add: numeral_2_eq_2)
  have res: "reserve 1 2 (\<lambda>k. c) VectorValues_default = \<lparr>values' = [c, c], varStarts = [0]\<rparr>" for c
    by (simp add: reserve_def resize_def VectorValues_default_def vec_size_def map_replicate_const two)
  have idx: "operator_index \<lparr>values' = [c, c], varStarts = [0, 1]\<rparr> 0
      = Inr \<lparr>range_start = 0, range_size = 1\<rparr>" for c :: real
    by (simp add: operator_index_def size_VV_def vec_size_def mk_range_def)
  have pb: "snd (push_back_preallocated [3] \<lparr>values' = [c, c], varStarts = [0]\<rparr>)
      = \<lparr>values' = [3, c], varStarts = [0, 1]\<rparr>" for c
    by (simp add: push_back_preallocated_def Let_def assign_block_def idx assign_range_def vec_size_def)
  have dims: "dim exact_block = 1" "dim slack_zero_block = 1" "dim slack_one_block = 1"
    by (simp_all add: dim_def exact_block_def slack_zero_block_def slack_one_block_def)
  have dots: "dot exact_block slack_zero_block = Inl assertion_failure"
    "dot slack_one_block slack_one_block = Inr 10"
    "dot slack_zero_block slack_one_block = Inr 9"
    by (simp_all add: dot_def vector_dot_def exact_block_def slack_zero_block_def slack_one_block_def)
  have used: "used_range_dot exact_block slack_zero_block = 9"
    "used_range_dot slack_one_block slack_one_block = 9"
    by (simp_all add: used_range_dot_def dims) (simp_all add: exact_block_def slack_zero_block_def slack_one_block_def)
  show ?thesis
    using built built2 added dims dots used
    by (simp add: res pb slack_zero_block_def slack_one_block_def)
qed

section \<open>The invariant after every operation\<close>

text \<open>
  C4, as amended. Take a container \<open>v\<close> that exists in memory and satisfies the invariant
  (first boundary 0, boundaries non-decreasing, \<open>dim() \<le> dimCapacity()\<close>). Then the
  invariant holds for the default container, for the copy of \<open>v\<close>, for what each of the
  three constructors from dimensions returns when the list of dimensions is valid (its
  total fits in a \<open>size_t\<close>) and the constructor succeeds, for \<open>SameStructure(v)\<close>, for
  \<open>v\<close> after \<open>reserve\<close>, \<open>makeZero\<close> and \<open>scal\<close>, and for what
  \<open>push_back_preallocated\<close>, an assignment to a block, \<open>axpy\<close> and \<open>operator+\<close> leave
  when they complete without error.
\<close>

theorem invariant_after_successful_operations:
  assumes mem: "in_memory v" and inv: "invariant v"
  shows "invariant VectorValues_default \<and>
         invariant (VectorValues_copy v) \<and>
         (valid_dims D1 \<and> VectorValues_dims D1 fresh1 = Inr u1 \<longrightarrow> invariant u1) \<and>
         (valid_dims (replicate (unat nVars) varDim) \<and>
            VectorValues_uniform nVars varDim fresh2 = Some (Inr u2) \<longrightarrow> invariant u2) \<and>
         (valid_dims D3 \<and> VectorValues_dims_values D3 vals = Inr u3 \<longrightarrow> invariant u3) \<and>
         invariant (SameStructure v fresh4) \<and>
         invariant (reserve n totalDims fresh5 v) \<and>
         (fst (push_back_preallocated b v) = Inr i \<longrightarrow>
            invariant (snd (push_back_preallocated b v))) \<and>
         (assign_block v j e = Inr u4 \<longrightarrow> invariant u4) \<and>
         invariant (makeZero v) \<and>
         invariant (scal alpha v) \<and>
         (axpy beta x v = Inr u5 \<longrightarrow> invariant u5) \<and>
         (operator_plus v c = Inr u6 \<longrightarrow> invariant u6)"
proof -
  have "invariant (VectorValues_copy v)"
    using inv by (simp add: copy_eq)
  moreover have "invariant (SameStructure v fresh4)"
    using inv by (rule same_structure_ok(1))
  moreover have "invariant (reserve n totalDims fresh5 v)"
    using mem inv by (rule reserve_ok(1))
  moreover have "invariant (snd (push_back_preallocated b v))"
    if "fst (push_back_preallocated b v) = Inr i"
    using mem inv that by (rule push_back_ok(1))
  moreover have "invariant u4" if "assign_block v j e = Inr u4"
    using that inv by (rule assign_block_ok(1))
  moreover have "invariant (makeZero v)"
    using inv by (rule makeZero_ok(1))
  moreover have "invariant (scal alpha v)"
    using inv by (rule scal_ok(1))
  moreover have "invariant u5" if "axpy beta x v = Inr u5"
    using that inv by (rule axpy_ok(1))
  moreover have "invariant u6" if "operator_plus v c = Inr u6"
    using that inv by (rule operator_plus_ok(1))
  ultimately show ?thesis
    using default_ok(2) dims_ok(2) uniform_ok(2) dims_values_ok(1) by blast
qed

theorem invariant_after_successful_operations_witness:
  "in_memory reserved_blocks \<and> invariant reserved_blocks \<and>
   invariant VectorValues_default \<and>
   invariant (VectorValues_copy reserved_blocks) \<and>
   valid_dims [2, 3] \<and>
   (\<exists>u. VectorValues_dims [2, 3] (\<lambda>k. 0) = Inr u \<and> invariant u) \<and>
   valid_dims (replicate (unat (3 :: Index)) 2) \<and>
   (\<exists>u. VectorValues_uniform 3 2 (\<lambda>k. 0) = Some (Inr u) \<and> invariant u) \<and>
   valid_dims [1, 1, 1, 1] \<and>
   (\<exists>u. VectorValues_dims_values [1, 1, 1, 1] [10, 20, 30, 40] = Inr u \<and> invariant u) \<and>
   invariant (SameStructure reserved_blocks (\<lambda>k. 0)) \<and>
   invariant (reserve 8 20 (\<lambda>k. 0) reserved_blocks) \<and>
   fst (push_back_preallocated [50, 60] reserved_blocks) = Inr 4 \<and>
   invariant (snd (push_back_preallocated [50, 60] reserved_blocks)) \<and>
   (\<exists>u. assign_block reserved_blocks 1 [99] = Inr u \<and> invariant u) \<and>
   invariant (makeZero reserved_blocks) \<and>
   invariant (scal 2 reserved_blocks) \<and>
   (\<exists>u. axpy 2 reserved_blocks reserved_blocks = Inr u \<and> invariant u) \<and>
   (\<exists>u. operator_plus reserved_blocks reserved_blocks = Inr u \<and> invariant u)"
proof -
  have "replicate 3 (2 :: size_t) = [2, 2, 2]"
    by (simp add: numeral_3_eq_3)
  then have three: "replicate (unat (3 :: Index)) (2 :: size_t) = [2, 2, 2]"
    by simp
  have valid: "valid_dims [2, 3]" "valid_dims (replicate (unat (3 :: Index)) 2)"
    "valid_dims [1, 1, 1, 1]"
    unfolding three by (simp_all add: valid_dims_def)
  obtain u1 where u1: "VectorValues_dims [2, 3] (\<lambda>k. 0) = Inr u1"
    using dims_result [of "[2, 3]" "\<lambda>k. 0"] by simp
  obtain u2 where u2: "VectorValues_uniform 3 2 (\<lambda>k. 0) = Some (Inr u2)"
    using uniform_result [of 3 2 "\<lambda>k. 0"] by simp
  have c: "size_VV reserved_blocks = 4" "dim reserved_blocks = 4" "dimCapacity reserved_blocks = 10"
    by (simp_all add: reserved_blocks_eq size_VV_def dim_def dimCapacity_def vec_size_def)
  have "unat (dim reserved_blocks) + length [50, 60 :: real] \<le> unat (dimCapacity reserved_blocks)"
    by (simp add: c)
  then have pb: "fst (push_back_preallocated [50, 60] reserved_blocks) = Inr 4"
    using push_back_success(1) [OF reserved_blocks_ok(1), of "[50, 60]"] by (simp add: c)
  have idx: "operator_index reserved_blocks 1 = Inr \<lparr>range_start = 1, range_size = 1\<rparr>"
    by (simp add: reserved_blocks_eq operator_index_def size_VV_def vec_size_def mk_range_def)
  obtain u4 where u4: "assign_block reserved_blocks 1 [99] = Inr u4"
    unfolding assign_block_def idx
    by (simp add: assign_range_def vec_size_def reserved_blocks_eq)
  obtain u5 where u5: "axpy 2 reserved_blocks reserved_blocks = Inr u5"
    by (simp add: axpy_def vector_axpy_def)
  obtain u6 where u6: "operator_plus reserved_blocks reserved_blocks = Inr u6"
    by (simp add: operator_plus_def mk_range_def read_range_def reserved_blocks_eq)
  note t = invariant_after_successful_operations [OF reserved_blocks_ok,
      where ?D1.0 = "[2, 3]" and ?fresh1.0 = "\<lambda>k. 0" and ?u1.0 = u1
        and nVars = 3 and varDim = 2 and ?fresh2.0 = "\<lambda>k. 0" and ?u2.0 = u2
        and ?D3.0 = "[1, 1, 1, 1]" and vals = "[10, 20, 30, 40]" and ?u3.0 = four_blocks
        and ?fresh4.0 = "\<lambda>k. 0" and n = 8 and totalDims = 20 and ?fresh5.0 = "\<lambda>k. 0"
        and b = "[50, 60]" and i = 4 and j = 1 and e = "[99]" and ?u4.0 = u4
        and alpha = 2 and beta = 2 and x = reserved_blocks and ?u5.0 = u5
        and c = reserved_blocks and ?u6.0 = u6]
  show ?thesis
    using reserved_blocks_ok valid u1 u2 four_blocks_built pb u4 u5 u6 t by simp
qed

text \<open>
  C4, as stated, has no condition on the operation. Two operations leave the invariant
  broken: \<open>push_back_preallocated\<close> of one entry on \<open>four_blocks\<close> (no spare capacity)
  fails and leaves \<open>dim() = 5 > 4 = dimCapacity()\<close>; and the constructor from the
  dimensions \<open>[2^64 - 1, 2]\<close>, whose total wraps around, returns the boundary list
  \<open>[0, 2^64 - 1, 1]\<close>, which decreases.
\<close>

theorem invariant_broken_by_failed_append_and_by_overflow:
  "in_memory four_blocks \<and> invariant four_blocks \<and>
   fst (push_back_preallocated [50] four_blocks) = Inl bad_index \<and>
   dim (snd (push_back_preallocated [50] four_blocks)) = 5 \<and>
   dimCapacity (snd (push_back_preallocated [50] four_blocks)) = 4 \<and>
   \<not> invariant (snd (push_back_preallocated [50] four_blocks)) \<and>
   VectorValues_dims [18446744073709551615, 2] (\<lambda>k. 0)
     = Inr \<lparr>values' = [0], varStarts = [0, 18446744073709551615, 1]\<rparr> \<and>
   \<not> invariant \<lparr>values' = [0], varStarts = [0, 18446744073709551615, 1]\<rparr>"
proof -
  have idx: "operator_index \<lparr>values' = [10, 20, 30, 40], varStarts = [0, 1, 2, 3, 4, 5]\<rparr> 4
      = Inr \<lparr>range_start = 4, range_size = 1\<rparr>"
    by (simp add: operator_index_def size_VV_def vec_size_def mk_range_def)
  have pb: "push_back_preallocated [50] four_blocks
      = (Inl bad_index, \<lparr>values' = [10, 20, 30, 40], varStarts = [0, 1, 2, 3, 4, 5]\<rparr>)"
    by (simp add: push_back_preallocated_def four_blocks_def Let_def assign_block_def idx
        assign_range_def vec_size_def)
  have after: "dim (snd (push_back_preallocated [50] four_blocks)) = 5"
    "dimCapacity (snd (push_back_preallocated [50] four_blocks)) = 4"
    unfolding pb by (simp_all add: dim_def dimCapacity_def vec_size_def)
  then have broken: "\<not> invariant (snd (push_back_preallocated [50] four_blocks))"
    by (simp add: invariant_def)
  have "Suc (length [18446744073709551615, 2 :: size_t]) < 2 ^ 64"
    by simp
  then have "VectorValues_dims [18446744073709551615, 2] (\<lambda>k. 0)
      = Inr \<lparr>values' = resize [] (sum_list [18446744073709551615, 2]) False (\<lambda>k. 0),
             varStarts = running_sum [18446744073709551615, 2]\<rparr>"
    by (rule dims_result)
  moreover have "running_sum [18446744073709551615, 2 :: size_t] = [0, 18446744073709551615, 1]"
    by (simp add: running_sum_scan)
  moreover have "resize [] (sum_list [18446744073709551615, 2 :: size_t]) False (\<lambda>k. 0) = [0]"
    by (simp add: resize_def)
  ultimately have wrapped: "VectorValues_dims [18446744073709551615, 2] (\<lambda>k. 0)
     = Inr \<lparr>values' = [0], varStarts = [0, 18446744073709551615, 1]\<rparr>"
    by simp
  have "\<not> (18446744073709551615 :: size_t) \<le> 1"
    by (simp add: word_le_nat_alt)
  then have unsorted: "\<not> invariant \<lparr>values' = [0], varStarts = [0, 18446744073709551615, 1]\<rparr>"
    by (simp add: invariant_def)
  show ?thesis
    using four_blocks_ok pb after broken wrapped unsorted by simp
qed

end
